theory Spec2Isabelle
  imports Main "HOL-Library.Word"
begin

section \<open>The operating system as seen by one process\<close>

text \<open>
  The shell of \<^verbatim>\<open>shell.c\<close> is single threaded; everything concurrent happens in
  the processes it forks. Each process is modelled by the calls it makes, and the
  operating system by the table of that process's children. A child is either still
  running or has terminated and keeps its wait status until a wait call collects it
  (a zombie). A pid that is not in the table is not a child of the caller.

  The wait status is the raw value the wait calls store: \<open>exit n\<close> gives
  \<open>(n mod 256) * 256\<close>, death by signal \<open>k\<close> gives \<open>k\<close>.
\<close>

datatype pstate = Running | Zombie int

type_synonym procs = "(int \<times> pstate) list"

definition reap :: "int \<Rightarrow> procs \<Rightarrow> procs" where
  "reap p ps = filter (\<lambda>e. fst e \<noteq> p) ps"

text \<open>
  \<^verbatim>\<open>waitpid(p, &status, WNOHANG)\<close> for a pid \<open>p > 0\<close> (the only pids the shell
  stores are those returned by a successful \<^verbatim>\<open>fork\<close>). The result is the return
  value, the value written to \<^verbatim>\<open>status\<close> if any, and the new child table. The
  status is written only when a terminated child is collected; for a running child
  the call returns 0 at once and for an unknown pid it returns -1, and in both cases
  \<^verbatim>\<open>status\<close> is left as it was.
\<close>

definition waitpid_nohang :: "procs \<Rightarrow> int \<Rightarrow> int \<times> int option \<times> procs" where
  "waitpid_nohang ps p =
     (case map_of ps p of
        None \<Rightarrow> (- 1, None, ps)
      | Some Running \<Rightarrow> (0, None, ps)
      | Some (Zombie st) \<Rightarrow> (p, Some st, reap p ps))"

fun first_zombie :: "procs \<Rightarrow> (int \<times> int) option" where
  "first_zombie [] = None"
| "first_zombie ((p, Running) # ps) = first_zombie ps"
| "first_zombie ((p, Zombie st) # ps) = Some (p, st)"

text \<open>
  \<^verbatim>\<open>wait(NULL)\<close>: collects any one terminated child. If a zombie exists the call
  returns at once with it. If there is no child at all it fails with -1. Otherwise
  it blocks until some running child terminates; which child that is, and with which
  status, is the environment's choice \<open>ev\<close>. \<open>None\<close> as a result says that the
  call never returns (no running child ever terminates).
\<close>

definition wait_any :: "(int \<times> int) option \<Rightarrow> procs \<Rightarrow> (int \<times> procs) option" where
  "wait_any ev ps =
     (case first_zombie ps of
        Some (p, st) \<Rightarrow> Some (p, reap p ps)
      | None \<Rightarrow>
          if ps = [] then Some (- 1, ps)
          else (case ev of
                  None \<Rightarrow> None
                | Some (p, st) \<Rightarrow>
                    if map_of ps p = Some Running then Some (p, reap p ps) else None))"

text \<open>The status a process that calls \<^verbatim>\<open>exit(n)\<close> leaves: the low 8 bits of \<open>n\<close>.\<close>

definition exit_status :: "int \<Rightarrow> int" where
  "exit_status n = n mod 256"

definition EXIT_FAILURE :: int where
  "EXIT_FAILURE = 1"

text \<open>Error numbers of \<^verbatim>\<open><errno.h>\<close> (Linux values).\<close>

definition ENOENT :: int where "ENOENT = 2"
definition EACCES :: int where "EACCES = 13"
definition ENOTDIR :: int where "ENOTDIR = 20"

datatype exec_result = ExecReplaced | ExecFailed int

datatype chdir_result = ChdirOk string | ChdirFailed int

text \<open>
  The fields of \<^verbatim>\<open>struct timeval\<close> and the counters of \<^verbatim>\<open>struct rusage\<close>
  are of type \<^verbatim>\<open>long\<close> (64 bits, two's complement).
\<close>

type_synonym long = "64 word"

record timeval =
  tv_sec :: long
  tv_usec :: long

record rusage =
  ru_utime :: timeval
  ru_stime :: timeval
  ru_nvcsw :: long
  ru_nivcsw :: long
  ru_majflt :: long
  ru_minflt :: long

section \<open>The state of a process running the shell's code\<close>

text \<open>
  Every \<^verbatim>\<open>printf\<close> and \<^verbatim>\<open>fprintf\<close> of the source is one output event that
  carries the arguments of the call:
  \<^item> \<open>JobAdded i pid\<close>: the announcement of \<^verbatim>\<open>addBackgroundProcess\<close>;
  \<^item> \<open>JobLine i pid name\<close>: one line of \<^verbatim>\<open>listBackgroundProcess\<close>;
  \<^item> \<open>JobLineNull i pid\<close>: the same call with a null pointer as the name, which
    is undefined for \<^verbatim>\<open>%s\<close> (the C library of GNU prints \<^verbatim>\<open>(null)\<close>);
  \<^item> \<open>StillRunning n\<close>: the refusal of \<^verbatim>\<open>exit\<close>, with the count;
  \<^item> \<open>Statistics wall cpu nvcsw nivcsw majflt minflt\<close>: the block of
    \<^verbatim>\<open>printChildrenStatistics\<close>;
  \<^item> \<open>ForkFailed\<close>, \<open>ChildForkFailed\<close>, \<open>ExecError err\<close>: the diagnostics of
    \<^verbatim>\<open>runCommand\<close>;
  \<^item> \<open>CdUsage\<close>, \<open>CdError path msg\<close>: the diagnostics of \<^verbatim>\<open>runBuiltinCd\<close>.
\<close>

datatype event =
    JobAdded int int
  | JobLine int int string
  | JobLineNull int int
  | StillRunning int
  | Statistics int int int int int int
  | ForkFailed
  | ChildForkFailed
  | ExecError int
  | CdUsage
  | CdError string string

text \<open>
  The two global arrays have \<^verbatim>\<open>BACKGROUND_PROCESS\<close> cells each and are indexed
  only by the loop counters, so they are functions from the index. A name is a
  \<^verbatim>\<open>char *\<close>: an address (0 is \<^verbatim>\<open>NULL\<close>), and \<open>mem\<close> gives the string that
  is stored at an address at the moment.
\<close>

definition BACKGROUND_PROCESS :: nat where
  "BACKGROUND_PROCESS = 10"

record shell =
  bProcessIds :: "nat \<Rightarrow> int"
  bProcessNames :: "nat \<Rightarrow> nat"
  children :: procs
  mem :: "nat \<Rightarrow> string"
  cwd :: string
  stdout :: "event list"
  stderr :: "event list"

text \<open>
  What a call does to the process that makes it: it returns, the process calls
  \<^verbatim>\<open>exit\<close> (or returns from \<^verbatim>\<open>main\<close>) with an argument, its image is replaced by
  another program, or it blocks for ever.
\<close>

datatype outcome = Returns shell | Exits int shell | Replaced shell | Blocks

text \<open>
  What the environment decides during one command: the initial contents of the
  uninitialised local \<^verbatim>\<open>status\<close> (by reap pass within the command and by loop
  iteration), the return values of the two \<^verbatim>\<open>fork\<close> calls in the process at hand,
  what \<^verbatim>\<open>execvp\<close> and \<^verbatim>\<open>chdir\<close> do, the child that ends a blocking
  \<^verbatim>\<open>wait\<close>, the value of \<^verbatim>\<open>errno\<close> before the command, the clock and the
  resource usage.
\<close>

record env =
  status_garbage :: "nat \<Rightarrow> nat \<Rightarrow> int"
  fork_ret :: int
  inner_fork_ret :: int
  exec_ret :: exec_result
  wait_event :: "(int \<times> int) option"
  chdir_ret :: chdir_result
  errno_before :: int
  startTime :: timeval
  endTime :: timeval
  usage :: rusage

section \<open>The job table\<close>

text \<open>
  \<^verbatim>\<open>updateBackgroundProcess\<close>. The loop carries the counter, and the model also
  the log of the status checks made: slot, pid asked for, and the value of
  \<^verbatim>\<open>status\<close> after the call. \<open>g i\<close> is what \<^verbatim>\<open>status\<close> holds when iteration
  \<open>i\<close> declares it.
\<close>

function update_loop ::
  "(nat \<Rightarrow> int) \<Rightarrow> nat \<Rightarrow> int \<Rightarrow> (nat \<times> int \<times> int) list \<Rightarrow> shell
     \<Rightarrow> int \<times> (nat \<times> int \<times> int) list \<times> shell" where
  "update_loop g i count log s =
     (if i < BACKGROUND_PROCESS then
        (if bProcessIds s i \<noteq> 0 then
           (case waitpid_nohang (children s) (bProcessIds s i) of
              (pid, written, ps) \<Rightarrow>
                (let status = (case written of Some v \<Rightarrow> v | None \<Rightarrow> g i);
                     log' = log @ [(i, bProcessIds s i, status)]
                 in if status = 0
                    then update_loop g (i + 1) count log'
                           (s\<lparr>bProcessIds := (bProcessIds s)(i := 0), children := ps\<rparr>)
                    else update_loop g (i + 1) (count + 1) log' (s\<lparr>children := ps\<rparr>)))
         else update_loop g (i + 1) count log s)
      else (count, log, s))"
  by pat_completeness auto
termination
  by (relation "measure (\<lambda>(g, i, count, log, s). BACKGROUND_PROCESS - i)") auto

declare update_loop.simps [simp del]

definition updateBackgroundProcess ::
  "(nat \<Rightarrow> int) \<Rightarrow> shell \<Rightarrow> int \<times> (nat \<times> int \<times> int) list \<times> shell" where
  "updateBackgroundProcess g s = update_loop g 0 0 [] s"

text \<open>\<^verbatim>\<open>addBackgroundProcess\<close>: the reap pass, then the first free slot, if any.\<close>

function add_loop :: "nat \<Rightarrow> int \<Rightarrow> nat \<Rightarrow> shell \<Rightarrow> shell" where
  "add_loop i p_pid p_cmdName s =
     (if i < BACKGROUND_PROCESS then
        (if bProcessIds s i = 0 then
           s\<lparr>bProcessIds := (bProcessIds s)(i := p_pid),
             bProcessNames := (bProcessNames s)(i := p_cmdName),
             stdout := stdout s @ [JobAdded (int i) p_pid]\<rparr>
         else add_loop (i + 1) p_pid p_cmdName s)
      else s)"
  by pat_completeness auto
termination
  by (relation "measure (\<lambda>(i, p_pid, p_cmdName, s). BACKGROUND_PROCESS - i)") auto

declare add_loop.simps [simp del]

definition addBackgroundProcess :: "(nat \<Rightarrow> int) \<Rightarrow> int \<Rightarrow> nat \<Rightarrow> shell \<Rightarrow> shell" where
  "addBackgroundProcess g p_pid p_cmdName s =
     add_loop 0 p_pid p_cmdName (snd (snd (updateBackgroundProcess g s)))"

text \<open>
  The \<^verbatim>\<open>printf\<close> of \<^verbatim>\<open>listBackgroundProcess\<close> for slot \<open>i\<close>: it reads the
  string at the stored address, and the call is undefined when that address is
  \<^verbatim>\<open>NULL\<close>.
\<close>

definition print_job :: "nat \<Rightarrow> int \<Rightarrow> nat \<Rightarrow> (nat \<Rightarrow> string) \<Rightarrow> event" where
  "print_job i pid name m =
     (if name = 0 then JobLineNull (int i) pid else JobLine (int i) pid (m name))"

text \<open>\<^verbatim>\<open>listBackgroundProcess\<close>: the reap pass, then one line for each occupied slot.\<close>

function list_loop :: "nat \<Rightarrow> shell \<Rightarrow> shell" where
  "list_loop i s =
     (if i < BACKGROUND_PROCESS then
        (if bProcessIds s i \<noteq> 0 then
           list_loop (i + 1)
             (s\<lparr>stdout := stdout s @
                  [print_job i (bProcessIds s i) (bProcessNames s i) (mem s)]\<rparr>)
         else list_loop (i + 1) s)
      else s)"
  by pat_completeness auto
termination
  by (relation "measure (\<lambda>(i, s). BACKGROUND_PROCESS - i)") auto

declare list_loop.simps [simp del]

definition listBackgroundProcess :: "(nat \<Rightarrow> int) \<Rightarrow> shell \<Rightarrow> shell" where
  "listBackgroundProcess g s = list_loop 0 (snd (snd (updateBackgroundProcess g s)))"

text \<open>The number of occupied slots of the table.\<close>

definition occupancy :: "shell \<Rightarrow> nat" where
  "occupancy s = length (filter (\<lambda>i. bProcessIds s i \<noteq> 0) [0..<BACKGROUND_PROCESS])"

text \<open>
  The table when the program starts: \<^verbatim>\<open>bProcessIds\<close> is initialised with zeros
  and \<^verbatim>\<open>bProcessNames\<close>, a global without initialiser, holds null pointers.
\<close>

definition init :: "(nat \<Rightarrow> string) \<Rightarrow> string \<Rightarrow> shell" where
  "init m d =
     \<lparr>bProcessIds = (\<lambda>i. 0), bProcessNames = (\<lambda>i. 0), children = [],
      mem = m, cwd = d, stdout = [], stderr = []\<rparr>"

text \<open>
  A registry operation with what the environment decides for it, and a step of the
  environment itself between two operations: children are forked or terminate, and
  memory is rewritten.
\<close>

datatype regop =
    Add "nat \<Rightarrow> int" int nat
  | List "nat \<Rightarrow> int"
  | ReapAll "nat \<Rightarrow> int"
  | Environment procs "nat \<Rightarrow> string"

fun apply_regop :: "regop \<Rightarrow> shell \<Rightarrow> shell" where
  "apply_regop (Add g p n) s = addBackgroundProcess g p n s"
| "apply_regop (List g) s = listBackgroundProcess g s"
| "apply_regop (ReapAll g) s = snd (snd (updateBackgroundProcess g s))"
| "apply_regop (Environment ps m) s = s\<lparr>children := ps, mem := m\<rparr>"

definition run_regops :: "regop list \<Rightarrow> shell \<Rightarrow> shell" where
  "run_regops ops s = fold apply_regop ops s"

section \<open>Running a command\<close>

text \<open>
  \<^verbatim>\<open>printChildrenStatistics\<close>. The two sums are computed in \<^verbatim>\<open>long\<close>; where
  they leave its range the model takes the wrap-around of the machine arithmetic.
  \<^verbatim>\<open>%ld\<close> prints the signed values.
\<close>

definition printChildrenStatistics :: "rusage \<Rightarrow> timeval \<Rightarrow> timeval \<Rightarrow> event" where
  "printChildrenStatistics u st en =
     (let wallClock :: long = (tv_sec en - tv_sec st) * 1000000 + (tv_usec en - tv_usec st);
          cpuTime :: long = (tv_sec (ru_utime u) + tv_sec (ru_stime u)) * 1000000
                      + tv_usec (ru_utime u) + tv_usec (ru_stime u)
      in Statistics (sint wallClock) (sint cpuTime) (sint (ru_nvcsw u)) (sint (ru_nivcsw u))
           (sint (ru_majflt u)) (sint (ru_minflt u)))"

text \<open>\<^verbatim>\<open>p_cmd[0]\<close> of a null-terminated argument vector.\<close>

definition arg0 :: "nat list \<Rightarrow> nat" where
  "arg0 p_cmd = (case p_cmd of [] \<Rightarrow> 0 | a # as \<Rightarrow> a)"

text \<open>
  \<^verbatim>\<open>runCommand\<close>, in each of the three processes that run it. The outer
  \<^verbatim>\<open>fork\<close> returns -1 (failure), 0 (this process is the new intermediate process,
  which starts without children) or the pid of the intermediate process (this is the
  shell). In the intermediate process the inner \<^verbatim>\<open>fork\<close> returns -1, 0 (this
  process is the grandchild) or the grandchild's pid. \<^verbatim>\<open>execvp\<close> returns only when
  it fails, and then it returns -1 and leaves the reason in \<^verbatim>\<open>errno\<close>.
\<close>

definition runCommand :: "env \<Rightarrow> nat list \<Rightarrow> bool \<Rightarrow> shell \<Rightarrow> outcome" where
  "runCommand e p_cmd p_isBackground s =
     (let pid = fork_ret e in
      if pid = - 1 then Returns (s\<lparr>stderr := stderr s @ [ForkFailed]\<rparr>)
      else if pid = 0 then
        (let c = s\<lparr>children := []\<rparr>; childPid = inner_fork_ret e in
         if childPid = - 1 then Exits EXIT_FAILURE (c\<lparr>stderr := stderr c @ [ChildForkFailed]\<rparr>)
         else if childPid = 0 then
           (case exec_ret e of
              ExecReplaced \<Rightarrow> Replaced c
            | ExecFailed errno \<Rightarrow>
                (let err = - 1 in Exits err (c\<lparr>stderr := stderr c @ [ExecError err]\<rparr>)))
         else
           (case wait_any (wait_event e) [(childPid, Running)] of
              None \<Rightarrow> Blocks
            | Some (w, ps) \<Rightarrow>
                Exits 0 (c\<lparr>children := ps,
                           stdout := stdout c @
                             [printChildrenStatistics (usage e) (startTime e) (endTime e)]\<rparr>)))
      else
        (let s1 = s\<lparr>children := children s @ [(pid, Running)]\<rparr> in
         if p_isBackground
         then Returns (addBackgroundProcess (status_garbage e 0) pid (arg0 p_cmd) s1)
         else (case wait_any (wait_event e) (children s1) of
                 None \<Rightarrow> Blocks
               | Some (w, ps) \<Rightarrow> Returns (s1\<lparr>children := ps\<rparr>))))"

section \<open>The builtin cd\<close>

definition cd_message :: "int \<Rightarrow> string" where
  "cd_message err =
     (if err = ENOENT then ''A component of the path does not name an existing directory''
      else if err = EACCES then ''Search permission are denied for any component of the pathname.''
      else if err = ENOTDIR then ''A component of the path is not a directory.''
      else ''Unhandled error.'')"

text \<open>
  \<^verbatim>\<open>runBuiltinCd\<close>. \<^verbatim>\<open>chdir\<close> sets \<^verbatim>\<open>errno\<close> only when it fails; the function
  reads \<^verbatim>\<open>errno\<close> in both cases, so after a success it sees the value from before.
\<close>

definition runBuiltinCd :: "env \<Rightarrow> nat \<Rightarrow> shell \<Rightarrow> shell" where
  "runBuiltinCd e p_path s =
     (if p_path = 0 then s\<lparr>stderr := stderr s @ [CdUsage]\<rparr>
      else
        (let (s1, err) =
               (case chdir_ret e of
                  ChdirOk d \<Rightarrow> (s\<lparr>cwd := d\<rparr>, errno_before e)
                | ChdirFailed n \<Rightarrow> (s, n))
         in if err \<noteq> 0
            then s1\<lparr>stderr := stderr s1 @ [CdError (mem s p_path) (cd_message err)]\<rparr>
            else s1))"

section \<open>The command loop\<close>

text \<open>
  One turn of the loop of \<^verbatim>\<open>main\<close>, after \<^verbatim>\<open>getCommand\<close> has filled
  \<^verbatim>\<open>cmd\<close> with the addresses of the \<^verbatim>\<open>cmdc\<close> tokens of the line. \<open>Returns\<close>
  is the next turn of the loop, and \<^verbatim>\<open>return 0\<close> from \<^verbatim>\<open>main\<close> is \<open>Exits 0\<close>.
\<close>

definition exit_command :: "env \<Rightarrow> shell \<Rightarrow> outcome" where
  "exit_command e s =
     (let s1 = listBackgroundProcess (status_garbage e 0) s;
          r = updateBackgroundProcess (status_garbage e 1) s1;
          bCount = fst r;
          s2 = snd (snd r)
      in if bCount \<noteq> 0 then Returns (s2\<lparr>stdout := stdout s2 @ [StillRunning bCount]\<rparr>)
         else Exits 0 s2)"

definition main_turn :: "env \<Rightarrow> nat list \<Rightarrow> shell \<Rightarrow> outcome" where
  "main_turn e cmd s =
     (case cmd of
        [] \<Rightarrow> Returns s
      | c0 # rest \<Rightarrow>
          if mem s c0 = ''exit'' then exit_command e s
          else if mem s c0 = ''btasks'' \<or> mem s c0 = ''ap''
          then Returns (listBackgroundProcess (status_garbage e 0) s)
          else if mem s c0 = ''cd''
          then Returns (runBuiltinCd e (case rest of [] \<Rightarrow> 0 | p # ps \<Rightarrow> p) s)
          else if mem s (last cmd) = ''&'' then runCommand e (butlast cmd) True s
          else runCommand e cmd False s)"

section \<open>Auxiliary notions for the proofs\<close>

text \<open>
  The body of the loop of \<^verbatim>\<open>updateBackgroundProcess\<close> taken apart, for the proofs:
  the value of \<^verbatim>\<open>status\<close> after the call of iteration \<open>i\<close>, the child table
  after it, and the state the iteration leaves.
\<close>

definition status_after :: "(nat \<Rightarrow> int) \<Rightarrow> nat \<Rightarrow> shell \<Rightarrow> int" where
  "status_after g i s =
     (case fst (snd (waitpid_nohang (children s) (bProcessIds s i))) of
        Some v \<Rightarrow> v | None \<Rightarrow> g i)"

definition children_after :: "nat \<Rightarrow> shell \<Rightarrow> procs" where
  "children_after i s = snd (snd (waitpid_nohang (children s) (bProcessIds s i)))"

definition update_body :: "(nat \<Rightarrow> int) \<Rightarrow> nat \<Rightarrow> shell \<Rightarrow> shell" where
  "update_body g i s =
     (if bProcessIds s i \<noteq> 0 then
        (if status_after g i s = 0
         then s\<lparr>bProcessIds := (bProcessIds s)(i := 0), children := children_after i s\<rparr>
         else s\<lparr>children := children_after i s\<rparr>)
      else s)"

text \<open>The line \<^verbatim>\<open>listBackgroundProcess\<close> prints for slot \<open>j\<close>.\<close>

definition job_line :: "shell \<Rightarrow> nat \<Rightarrow> event" where
  "job_line s j = print_job j (bProcessIds s j) (bProcessNames s j) (mem s)"

text \<open>Nothing is stored beyond the end of the table.\<close>

definition table_inv :: "shell \<Rightarrow> bool" where
  "table_inv s = (\<forall>j. BACKGROUND_PROCESS \<le> j \<longrightarrow> bProcessIds s j = 0)"

section \<open>What a reap pass is to observe\<close>

text \<open>
  The outcome of the status checks of a reap pass, told from the state before the
  pass. A child is a zombie when it has terminated and has not been collected. The
  iterations before \<open>i\<close> collect the zombies whose pid is stored in a slot before
  \<open>i\<close>. The status observed for slot \<open>i\<close> is the wait status of the slot's process
  when that process is a zombie and no earlier slot holds the same pid; in every other
  case (the process runs, is no child, or was collected for an earlier slot) the call
  writes nothing and the status is what the variable held, \<open>g i\<close>.
\<close>

definition is_zombie :: "procs \<Rightarrow> int \<Rightarrow> bool" where
  "is_zombie ps p = (case map_of ps p of Some (Zombie st) \<Rightarrow> True | _ \<Rightarrow> False)"

definition collected_before :: "shell \<Rightarrow> nat \<Rightarrow> int \<Rightarrow> bool" where
  "collected_before s i p =
     (p \<noteq> 0 \<and> p \<in> set (map (bProcessIds s) [0..<i]) \<and> is_zombie (children s) p)"

definition observed_status :: "(nat \<Rightarrow> int) \<Rightarrow> shell \<Rightarrow> nat \<Rightarrow> int" where
  "observed_status g s i =
     (case map_of (children s) (bProcessIds s i) of
        Some (Zombie st) \<Rightarrow>
          if bProcessIds s i \<in> set (map (bProcessIds s) [0..<i]) then g i else st
      | _ \<Rightarrow> g i)"

text \<open>The pairs of pid and name address passed to the adds of a sequence of operations.\<close>

fun added :: "regop list \<Rightarrow> (int \<times> nat) list" where
  "added [] = []"
| "added (Add g p n # ops) = (p, n) # added ops"
| "added (x # ops) = added ops"

section \<open>Example states\<close>

text \<open>
  Three jobs: the process of the first has exited with status 0, the second is
  running, the third has exited with \<^verbatim>\<open>exit(1)\<close> (wait status 256).
\<close>

definition three_jobs :: shell where
  "three_jobs =
     (init (\<lambda>a. []) [])
       \<lparr>bProcessIds := (\<lambda>i. 0)(0 := 100, 1 := 101, 2 := 102),
        children := [(100, Zombie 0), (101, Running), (102, Zombie 256)]\<rparr>"

text \<open>A full table: ten jobs, all of them running.\<close>

definition ten_jobs :: shell where
  "ten_jobs =
     (init (\<lambda>a. []) [])
       \<lparr>bProcessIds := (\<lambda>i. if i < 10 then 100 + int i else 0),
        children := map (\<lambda>i. (100 + int i, Running)) [0..<10]\<rparr>"

text \<open>
  One job, of the command at address 1, whose process has terminated with
  \<^verbatim>\<open>exit(EXIT_FAILURE)\<close> (wait status 256) and has not been waited for yet.
\<close>

definition failed_job :: shell where
  "failed_job =
     (init ((\<lambda>a. [])(1 := ''sleep'')) [])
       \<lparr>bProcessIds := (\<lambda>i. 0)(0 := 100),
        bProcessNames := (\<lambda>i. 0)(0 := 1),
        children := [(100, Zombie 256)]\<rparr>"

text \<open>
  One job whose process has terminated with status 0 and has not been waited for
  yet.
\<close>

definition finished_job :: shell where
  "finished_job =
     (init ((\<lambda>a. [])(1 := ''sleep'', 2 := ''ls'')) [])
       \<lparr>bProcessIds := (\<lambda>i. 0)(0 := 100),
        bProcessNames := (\<lambda>i. 0)(0 := 1),
        children := [(100, Zombie 0)]\<rparr>"

text \<open>
  A shell that has just started, with the tokens \<^verbatim>\<open>sleep\<close>, \<^verbatim>\<open>&\<close>,
  \<^verbatim>\<open>btasks\<close>, \<^verbatim>\<open>exit\<close>, \<^verbatim>\<open>cd\<close> and \<^verbatim>\<open>/nowhere\<close> in memory at the
  addresses 1 to 6.
\<close>

definition fresh :: shell where
  "fresh =
     init ((\<lambda>a. [])(1 := ''sleep'', 2 := ''&'', 3 := ''btasks'', 4 := ''exit'',
                       5 := ''cd'', 6 := ''/nowhere'')) ''/home''"

text \<open>
  An environment in which the uninitialised \<^verbatim>\<open>status\<close> holds \<open>v\<close>, the outer
  \<^verbatim>\<open>fork\<close> returns \<open>pid\<close>, and no child terminates during a blocking wait.
\<close>

definition quiet_env :: "int \<Rightarrow> int \<Rightarrow> env" where
  "quiet_env v pid =
     \<lparr>status_garbage = (\<lambda>pass i. v), fork_ret = pid, inner_fork_ret = 0,
      exec_ret = ExecReplaced, wait_event = None, chdir_ret = ChdirFailed ENOENT,
      errno_before = 0,
      startTime = \<lparr>tv_sec = 0, tv_usec = 0\<rparr>, endTime = \<lparr>tv_sec = 0, tv_usec = 0\<rparr>,
      usage = \<lparr>ru_utime = \<lparr>tv_sec = 0, tv_usec = 0\<rparr>, ru_stime = \<lparr>tv_sec = 0, tv_usec = 0\<rparr>,
               ru_nvcsw = 0, ru_nivcsw = 0, ru_majflt = 0, ru_minflt = 0\<rparr>\<rparr>"

text \<open>The state in which \<^verbatim>\<open>main\<close> decides about \<^verbatim>\<open>exit\<close>: after the two reap passes.\<close>

definition exit_table :: "env \<Rightarrow> shell \<Rightarrow> shell" where
  "exit_table e s =
     snd (snd (updateBackgroundProcess (status_garbage e 1)
                 (listBackgroundProcess (status_garbage e 0) s)))"

text \<open>The state in which a call returns to its caller, if it does.\<close>

definition returned :: "outcome \<Rightarrow> shell option" where
  "returned r = (case r of Returns s \<Rightarrow> Some s | Exits n s \<Rightarrow> None | Replaced s \<Rightarrow> None | Blocks \<Rightarrow> None)"

text \<open>
  The shell after \<^verbatim>\<open>sleep &\<close>: the outer \<^verbatim>\<open>fork\<close> has returned 100, the
  intermediate process runs, and the job has been added.
\<close>

definition launched :: shell where
  "launched = addBackgroundProcess (\<lambda>i. 0) 100 1 (fresh\<lparr>children := [(100, Running)]\<rparr>)"

text \<open>
  A series of background launches as the shell performs them: the new process is
  running, then the job is added.
\<close>

fun launch_all :: "(nat \<Rightarrow> int) \<Rightarrow> (int \<times> nat) list \<Rightarrow> shell \<Rightarrow> shell" where
  "launch_all g [] s = s"
| "launch_all g ((p, n) # js) s =
     launch_all g js (addBackgroundProcess g p n (s\<lparr>children := children s @ [(p, Running)]\<rparr>))"

text \<open>No child of the shell has terminated.\<close>

definition all_running :: "shell \<Rightarrow> bool" where
  "all_running s = list_all (\<lambda>e. snd e = Running) (children s)"

section \<open>Lemmas about the reap pass\<close>

lemma update_loop_unfold:
  "i < BACKGROUND_PROCESS \<Longrightarrow>
   update_loop g i c l s =
     update_loop g (Suc i)
       (c + (if bProcessIds s i \<noteq> 0 \<and> status_after g i s \<noteq> 0 then 1 else 0))
       (l @ (if bProcessIds s i \<noteq> 0 then [(i, bProcessIds s i, status_after g i s)] else []))
       (update_body g i s)"
  by (subst update_loop.simps)
     (simp add: status_after_def children_after_def update_body_def Let_def split: prod.splits)

lemma update_loop_done:
  "\<not> i < BACKGROUND_PROCESS \<Longrightarrow> update_loop g i c l s = (c, l, s)"
  by (subst update_loop.simps) simp

lemma update_body_frame:
  "bProcessNames (update_body g i s) = bProcessNames s"
  "mem (update_body g i s) = mem s"
  "cwd (update_body g i s) = cwd s"
  "stdout (update_body g i s) = stdout s"
  "stderr (update_body g i s) = stderr s"
  by (simp_all add: update_body_def)

lemma update_body_ids:
  "bProcessIds (update_body g i s) j =
     (if j = i \<and> bProcessIds s i \<noteq> 0 \<and> status_after g i s = 0 then 0 else bProcessIds s j)"
  by (simp add: update_body_def)

lemma update_loop_frame:
  "update_loop g i c l s = (c', l', s') \<Longrightarrow>
     bProcessNames s' = bProcessNames s \<and> mem s' = mem s \<and> cwd s' = cwd s
     \<and> stdout s' = stdout s \<and> stderr s' = stderr s"
proof (induction "BACKGROUND_PROCESS - i" arbitrary: i c l s)
  case 0
  then show ?case by (simp add: update_loop_done)
next
  case (Suc n)
  then have lt: "i < BACKGROUND_PROCESS" and n: "n = BACKGROUND_PROCESS - Suc i" by auto
  from Suc.hyps(1)[OF n] Suc.prems show ?case
    by (simp add: update_loop_unfold[OF lt] update_body_frame)
qed

text \<open>The pass writes only zeros, only at the slots it has not passed yet, and only
  inside the table.\<close>

lemma update_loop_ids:
  "update_loop g i c l s = (c', l', s') \<Longrightarrow>
     (j < i \<or> BACKGROUND_PROCESS \<le> j \<longrightarrow> bProcessIds s' j = bProcessIds s j)
     \<and> (bProcessIds s' j = bProcessIds s j \<or> bProcessIds s' j = 0)"
proof (induction "BACKGROUND_PROCESS - i" arbitrary: i c l s)
  case 0
  then show ?case by (simp add: update_loop_done)
next
  case (Suc n)
  then have lt: "i < BACKGROUND_PROCESS" and n: "n = BACKGROUND_PROCESS - Suc i" by auto
  from Suc.hyps(1)[OF n] Suc.prems lt show ?case
    by (auto simp add: update_loop_unfold[OF lt] update_body_ids split: if_splits)
qed

lemma update_loop_count:
  "update_loop g i c l s = (c', l', s') \<Longrightarrow>
     c' = c + int (length (filter (\<lambda>j. bProcessIds s' j \<noteq> 0) [i..<BACKGROUND_PROCESS]))"
proof (induction "BACKGROUND_PROCESS - i" arbitrary: i c l s)
  case 0
  then show ?case by (simp add: update_loop_done)
next
  case (Suc n)
  then have lt: "i < BACKGROUND_PROCESS" and n: "n = BACKGROUND_PROCESS - Suc i" by auto
  let ?s1 = "update_body g i s"
  from Suc.prems have r: "update_loop g (Suc i)
       (c + (if bProcessIds s i \<noteq> 0 \<and> status_after g i s \<noteq> 0 then 1 else 0))
       (l @ (if bProcessIds s i \<noteq> 0 then [(i, bProcessIds s i, status_after g i s)] else []))
       ?s1 = (c', l', s')"
    by (simp add: update_loop_unfold[OF lt])
  have keep: "bProcessIds s' i = bProcessIds ?s1 i"
    using update_loop_ids[OF r, of i] by simp
  have split: "[i..<BACKGROUND_PROCESS] = i # [Suc i..<BACKGROUND_PROCESS]"
    using lt by (simp add: upt_conv_Cons)
  from Suc.hyps(1)[OF n r] show ?case
    by (simp add: split keep update_body_ids)
qed

lemma map_of_filter_fst:
  "map_of (filter (\<lambda>e. P (fst e)) ps) p = (if P p then map_of ps p else None)"
  by (induction ps) auto

lemma collected_before_Suc:
  "collected_before s (Suc i) q
     = (collected_before s i q \<or> (q = bProcessIds s i \<and> q \<noteq> 0 \<and> is_zombie (children s) q))"
  by (auto simp add: collected_before_def)

lemma status_after_observed:
  assumes ids: "bProcessIds s i = bProcessIds s0 i"
    and ch: "children s = filter (\<lambda>e. \<not> collected_before s0 i (fst e)) (children s0)"
    and nz: "bProcessIds s0 i \<noteq> 0"
  shows "status_after g i s = observed_status g s0 i"
proof -
  let ?p = "bProcessIds s0 i"
  have m: "map_of (children s) ?p
             = (if \<not> collected_before s0 i ?p then map_of (children s0) ?p else None)"
    unfolding ch by (rule map_of_filter_fst)
  show ?thesis
  proof (cases "collected_before s0 i ?p")
    case True
    then have "map_of (children s) ?p = None" using m by simp
    then have l: "status_after g i s = g i"
      by (simp add: status_after_def waitpid_nohang_def ids)
    from True have "is_zombie (children s0) ?p" "?p \<in> set (map (bProcessIds s0) [0..<i])"
      by (simp_all add: collected_before_def)
    then have "observed_status g s0 i = g i"
      by (auto simp add: observed_status_def is_zombie_def split: option.splits pstate.splits)
    with l show ?thesis by simp
  next
    case False
    then have e: "map_of (children s) ?p = map_of (children s0) ?p" using m by simp
    have notin: "is_zombie (children s0) ?p \<Longrightarrow> ?p \<notin> set (map (bProcessIds s0) [0..<i])"
      using False nz by (auto simp add: collected_before_def)
    show ?thesis
      using e notin
      by (auto simp add: status_after_def observed_status_def waitpid_nohang_def ids is_zombie_def
            split: option.splits pstate.splits)
  qed
qed

lemma children_after_collected:
  assumes ids: "bProcessIds s i = bProcessIds s0 i"
    and ch: "children s = filter (\<lambda>e. \<not> collected_before s0 i (fst e)) (children s0)"
  shows "children (update_body g i s)
           = filter (\<lambda>e. \<not> collected_before s0 (Suc i) (fst e)) (children s0)"
proof -
  let ?p = "bProcessIds s0 i"
  have m: "map_of (children s) ?p
             = (if \<not> collected_before s0 i ?p then map_of (children s0) ?p else None)"
    unfolding ch by (rule map_of_filter_fst)
  show ?thesis
  proof (cases "?p \<noteq> 0 \<and> is_zombie (children s0) ?p \<and> \<not> collected_before s0 i ?p")
    case True
    then obtain st where z: "map_of (children s) ?p = Some (Zombie st)"
      using m by (auto simp add: is_zombie_def split: option.splits pstate.splits)
    then have "children_after i s = reap ?p (children s)"
      by (simp add: children_after_def waitpid_nohang_def ids)
    then have "children (update_body g i s) = reap ?p (children s)"
      using True by (simp add: update_body_def ids)
    also have "\<dots> = filter (\<lambda>e. \<not> collected_before s0 (Suc i) (fst e)) (children s0)"
      unfolding reap_def ch filter_filter
      by (rule filter_cong[OF refl]) (use True in \<open>auto simp add: collected_before_Suc\<close>)
    finally show ?thesis .
  next
    case False
    have same: "collected_before s0 (Suc i) q = collected_before s0 i q" for q
      using False by (auto simp add: collected_before_Suc)
    have nz: "\<not> (\<exists>st. map_of (children s) ?p = Some (Zombie st))" if "?p \<noteq> 0"
      using False that m by (auto simp add: is_zombie_def split: if_splits)
    have "children_after i s = children s" if "?p \<noteq> 0"
      using nz[OF that]
      by (auto simp add: children_after_def waitpid_nohang_def ids split: option.splits pstate.splits)
    then have "children (update_body g i s) = children s"
      by (simp add: update_body_def ids)
    then show ?thesis by (simp add: ch same)
  qed
qed

lemma update_loop_spec:
  assumes "i \<le> BACKGROUND_PROCESS"
    and "\<And>j. i \<le> j \<Longrightarrow> bProcessIds s j = bProcessIds s0 j"
    and "children s = filter (\<lambda>e. \<not> collected_before s0 i (fst e)) (children s0)"
    and "update_loop g i c l s = (c', l', s')"
  shows "l' = l @ map (\<lambda>j. (j, bProcessIds s0 j, observed_status g s0 j))
                    (filter (\<lambda>j. bProcessIds s0 j \<noteq> 0) [i..<BACKGROUND_PROCESS])
       \<and> c' = c + int (length (filter (\<lambda>j. bProcessIds s0 j \<noteq> 0 \<and> observed_status g s0 j \<noteq> 0)
                                  [i..<BACKGROUND_PROCESS]))
       \<and> children s' = filter (\<lambda>e. \<not> collected_before s0 BACKGROUND_PROCESS (fst e)) (children s0)
       \<and> (\<forall>j\<ge>i. bProcessIds s' j =
             (if j < BACKGROUND_PROCESS \<and> bProcessIds s0 j \<noteq> 0 \<and> observed_status g s0 j = 0
              then 0 else bProcessIds s0 j))"
  using assms
proof (induction "BACKGROUND_PROCESS - i" arbitrary: i c l s)
  case 0
  then have "i = BACKGROUND_PROCESS" by simp
  with 0 show ?case by (simp add: update_loop_done)
next
  case (Suc n)
  then have lt: "i < BACKGROUND_PROCESS" and n: "n = BACKGROUND_PROCESS - Suc i" by auto
  let ?s1 = "update_body g i s"
  let ?p = "bProcessIds s0 i"
  have idi: "bProcessIds s i = ?p" using Suc.prems(2)[of i] by simp
  have st: "?p \<noteq> 0 \<Longrightarrow> status_after g i s = observed_status g s0 i"
    by (rule status_after_observed[OF idi Suc.prems(3)])
  let ?e = "if ?p \<noteq> 0 then [(i, ?p, observed_status g s0 i)] else []"
  let ?c1 = "c + (if ?p \<noteq> 0 \<and> observed_status g s0 i \<noteq> 0 then 1 else 0)"
  have r: "update_loop g (Suc i) ?c1 (l @ ?e) ?s1 = (c', l', s')"
    using Suc.prems(4) st by (auto simp add: update_loop_unfold[OF lt] idi)
  have ids1: "\<And>j. Suc i \<le> j \<Longrightarrow> bProcessIds ?s1 j = bProcessIds s0 j"
    using Suc.prems(2) by (simp add: update_body_ids)
  have ch1: "children ?s1 = filter (\<lambda>e. \<not> collected_before s0 (Suc i) (fst e)) (children s0)"
    by (rule children_after_collected[OF idi Suc.prems(3)])
  have le: "Suc i \<le> BACKGROUND_PROCESS" using lt by simp
  from Suc.hyps(1)[OF n le ids1 ch1 r] have
    l': "l' = (l @ ?e) @ map (\<lambda>j. (j, bProcessIds s0 j, observed_status g s0 j))
                    (filter (\<lambda>j. bProcessIds s0 j \<noteq> 0) [Suc i..<BACKGROUND_PROCESS])" and
    c': "c' = ?c1 + int (length (filter (\<lambda>j. bProcessIds s0 j \<noteq> 0 \<and> observed_status g s0 j \<noteq> 0)
                                  [Suc i..<BACKGROUND_PROCESS]))" and
    ch': "children s' = filter (\<lambda>e. \<not> collected_before s0 BACKGROUND_PROCESS (fst e)) (children s0)" and
    ids': "\<forall>j\<ge>Suc i. bProcessIds s' j =
             (if j < BACKGROUND_PROCESS \<and> bProcessIds s0 j \<noteq> 0 \<and> observed_status g s0 j = 0
              then 0 else bProcessIds s0 j)"
    by blast+
  have keep: "bProcessIds s' i = bProcessIds ?s1 i"
    using update_loop_ids[OF r, where j = i] by simp
  have at_i: "bProcessIds s' i = (if ?p \<noteq> 0 \<and> observed_status g s0 i = 0 then 0 else ?p)"
    using st by (auto simp add: keep update_body_ids idi)
  have split: "[i..<BACKGROUND_PROCESS] = i # [Suc i..<BACKGROUND_PROCESS]"
    using lt by (simp add: upt_conv_Cons)
  have A: "l' = l @ map (\<lambda>j. (j, bProcessIds s0 j, observed_status g s0 j))
                    (filter (\<lambda>j. bProcessIds s0 j \<noteq> 0) [i..<BACKGROUND_PROCESS])"
    using l' by (simp add: split)
  have B: "c' = c + int (length (filter (\<lambda>j. bProcessIds s0 j \<noteq> 0 \<and> observed_status g s0 j \<noteq> 0)
                                  [i..<BACKGROUND_PROCESS]))"
    using c' by (simp add: split)
  have D: "\<forall>j\<ge>i. bProcessIds s' j =
             (if j < BACKGROUND_PROCESS \<and> bProcessIds s0 j \<noteq> 0 \<and> observed_status g s0 j = 0
              then 0 else bProcessIds s0 j)"
  proof (intro allI impI)
    fix j assume "i \<le> j"
    then consider "j = i" | "Suc i \<le> j" by linarith
    then show "bProcessIds s' j =
             (if j < BACKGROUND_PROCESS \<and> bProcessIds s0 j \<noteq> 0 \<and> observed_status g s0 j = 0
              then 0 else bProcessIds s0 j)"
    proof cases
      case 1
      then show ?thesis using at_i lt by simp
    next
      case 2
      then show ?thesis using ids' by blast
    qed
  qed
  from A B ch' D show ?case by blast
qed

lemma filter_length_mono:
  "(\<And>x. x \<in> set xs \<Longrightarrow> P x \<Longrightarrow> Q x) \<Longrightarrow> length (filter P xs) \<le> length (filter Q xs)"
  by (induction xs) auto

lemmas reap_eval =
  updateBackgroundProcess_def update_loop.simps waitpid_nohang_def reap_def
  BACKGROUND_PROCESS_def init_def Let_def

section \<open>The reap pass\<close>

text \<open>
  Claim C2. A reap pass makes one non-blocking status check for every occupied slot,
  in slot order and on the pid stored in that slot, and none for an empty slot; the
  log of the checks is determined by the state before the pass. The status observed
  for a slot is what \<^verbatim>\<open>waitpid\<close> wrote, the wait status of the slot's terminated
  process, or, when the call wrote nothing, what the variable held before. A slot is
  cleared exactly when it was occupied and its observed status is zero, and every
  other slot keeps its contents. The value returned is the number of occupied slots
  whose observed status is not zero, the jobs still considered running. The pass
  collects exactly the terminated children whose pid is in the table.
\<close>

theorem updateBackgroundProcess_checks_every_slot:
  assumes "updateBackgroundProcess g s = (count, log, s')"
  shows "log = map (\<lambda>i. (i, bProcessIds s i, observed_status g s i))
                 (filter (\<lambda>i. bProcessIds s i \<noteq> 0) [0..<BACKGROUND_PROCESS])
         \<and> (\<forall>i. bProcessIds s' i =
                  (if i < BACKGROUND_PROCESS \<and> bProcessIds s i \<noteq> 0 \<and> observed_status g s i = 0
                   then 0 else bProcessIds s i))
         \<and> count = int (length (filter (\<lambda>i. bProcessIds s i \<noteq> 0 \<and> observed_status g s i \<noteq> 0)
                                   [0..<BACKGROUND_PROCESS]))
         \<and> children s' = filter (\<lambda>e. \<not> collected_before s BACKGROUND_PROCESS (fst e)) (children s)
         \<and> (\<forall>i. bProcessIds s i \<notin> set (map (bProcessIds s) [0..<i]) \<longrightarrow>
                  observed_status g s i =
                    (case fst (snd (waitpid_nohang (children s) (bProcessIds s i))) of
                       Some v \<Rightarrow> v | None \<Rightarrow> g i))"
proof -
  from assms have r: "update_loop g 0 0 [] s = (count, log, s')"
    by (simp add: updateBackgroundProcess_def)
  have c0: "children s = filter (\<lambda>e. \<not> collected_before s 0 (fst e)) (children s)"
    by (simp add: collected_before_def)
  from update_loop_spec[OF _ _ c0 r] have
    A: "log = map (\<lambda>i. (i, bProcessIds s i, observed_status g s i))
                 (filter (\<lambda>i. bProcessIds s i \<noteq> 0) [0..<BACKGROUND_PROCESS])" and
    B: "\<forall>i. bProcessIds s' i =
                  (if i < BACKGROUND_PROCESS \<and> bProcessIds s i \<noteq> 0 \<and> observed_status g s i = 0
                   then 0 else bProcessIds s i)" and
    C: "count = int (length (filter (\<lambda>i. bProcessIds s i \<noteq> 0 \<and> observed_status g s i \<noteq> 0)
                                   [0..<BACKGROUND_PROCESS]))" and
    D: "children s' = filter (\<lambda>e. \<not> collected_before s BACKGROUND_PROCESS (fst e)) (children s)"
    by simp_all
  have E: "\<forall>i. bProcessIds s i \<notin> set (map (bProcessIds s) [0..<i]) \<longrightarrow>
                  observed_status g s i =
                    (case fst (snd (waitpid_nohang (children s) (bProcessIds s i))) of
                       Some v \<Rightarrow> v | None \<Rightarrow> g i)"
    by (auto simp add: observed_status_def waitpid_nohang_def split: option.splits pstate.splits)
  from A B C D E show ?thesis by blast
qed

theorem updateBackgroundProcess_checks_every_slot_witness:
  "updateBackgroundProcess (\<lambda>i. 7) three_jobs
     = (fst (updateBackgroundProcess (\<lambda>i. 7) three_jobs),
        fst (snd (updateBackgroundProcess (\<lambda>i. 7) three_jobs)),
        snd (snd (updateBackgroundProcess (\<lambda>i. 7) three_jobs)))
   \<and> bProcessIds three_jobs 2 \<notin> set (map (bProcessIds three_jobs) [0..<2])
   \<and> observed_status (\<lambda>i. 7) three_jobs 2 = 256
   \<and> fst (snd (updateBackgroundProcess (\<lambda>i. 7) three_jobs))
       = [(0, 100, 0), (1, 101, 7), (2, 102, 256)]
   \<and> map (bProcessIds (snd (snd (updateBackgroundProcess (\<lambda>i. 7) three_jobs)))) [0, 1, 2]
       = [0, 101, 102]
   \<and> fst (updateBackgroundProcess (\<lambda>i. 7) three_jobs) = 2
   \<and> children (snd (snd (updateBackgroundProcess (\<lambda>i. 7) three_jobs))) = [(101, Running)]"
proof -
  have a: "updateBackgroundProcess (\<lambda>i. 7) three_jobs
     = (fst (updateBackgroundProcess (\<lambda>i. 7) three_jobs),
        fst (snd (updateBackgroundProcess (\<lambda>i. 7) three_jobs)),
        snd (snd (updateBackgroundProcess (\<lambda>i. 7) three_jobs)))"
    by simp
  have b: "bProcessIds three_jobs 2 \<notin> set (map (bProcessIds three_jobs) [0..<2])"
    by (simp add: three_jobs_def init_def upt_rec)
  have c: "waitpid_nohang (children three_jobs) (bProcessIds three_jobs 2)
             = (102, Some 256, [(100, Zombie 0), (101, Running)])"
    by (simp add: three_jobs_def init_def waitpid_nohang_def reap_def)
  have d: "fst (snd (updateBackgroundProcess (\<lambda>i. 7) three_jobs))
       = [(0, 100, 0), (1, 101, 7), (2, 102, 256)]"
    by (simp add: reap_eval three_jobs_def)
  have e: "map (bProcessIds (snd (snd (updateBackgroundProcess (\<lambda>i. 7) three_jobs)))) [0, 1, 2]
       = [0, 101, 102]"
    by (simp add: reap_eval three_jobs_def)
  have f: "fst (updateBackgroundProcess (\<lambda>i. 7) three_jobs) = 2"
    by (simp add: reap_eval three_jobs_def)
  have h: "children (snd (snd (updateBackgroundProcess (\<lambda>i. 7) three_jobs))) = [(101, Running)]"
    by (simp add: reap_eval three_jobs_def)
  from updateBackgroundProcess_checks_every_slot[OF a]
  have "bProcessIds three_jobs 2 \<notin> set (map (bProcessIds three_jobs) [0..<2]) \<longrightarrow>
          observed_status (\<lambda>i. 7) three_jobs 2 =
            (case fst (snd (waitpid_nohang (children three_jobs) (bProcessIds three_jobs 2))) of
               Some v \<Rightarrow> v | None \<Rightarrow> 7)"
    by blast
  with b c have o: "observed_status (\<lambda>i. 7) three_jobs 2 = 256" by simp
  from a b o d e f h show ?thesis by blast
qed

text \<open>
  Claim C10. A reap pass creates and alters no live entry: a slot that is occupied
  after the pass was occupied before it, with the same pid and the same name, so the
  occupancy does not grow; and the count returned is the number of slots the pass
  leaves occupied.
\<close>

theorem updateBackgroundProcess_only_clears:
  assumes "updateBackgroundProcess g s = (count, log, s')"
  shows "(\<forall>i. bProcessIds s' i \<noteq> 0 \<longrightarrow>
            bProcessIds s i \<noteq> 0 \<and> bProcessIds s' i = bProcessIds s i
            \<and> bProcessNames s' i = bProcessNames s i)
         \<and> occupancy s' \<le> occupancy s
         \<and> count = int (occupancy s')"
proof -
  from assms have r: "update_loop g 0 0 [] s = (count, log, s')"
    by (simp add: updateBackgroundProcess_def)
  have ids: "bProcessIds s' i = bProcessIds s i \<or> bProcessIds s' i = 0" for i
    using update_loop_ids[OF r, of i] by simp
  have names: "bProcessNames s' = bProcessNames s"
    using update_loop_frame[OF r] by simp
  have "\<forall>i. bProcessIds s' i \<noteq> 0 \<longrightarrow>
            bProcessIds s i \<noteq> 0 \<and> bProcessIds s' i = bProcessIds s i
            \<and> bProcessNames s' i = bProcessNames s i"
    using ids names by metis
  moreover have "occupancy s' \<le> occupancy s"
    unfolding occupancy_def using ids by (intro filter_length_mono) metis
  moreover have "count = int (occupancy s')"
    using update_loop_count[OF r] by (simp add: occupancy_def)
  ultimately show ?thesis by blast
qed

theorem updateBackgroundProcess_only_clears_witness:
  "updateBackgroundProcess (\<lambda>i. 7) three_jobs
     = (fst (updateBackgroundProcess (\<lambda>i. 7) three_jobs),
        fst (snd (updateBackgroundProcess (\<lambda>i. 7) three_jobs)),
        snd (snd (updateBackgroundProcess (\<lambda>i. 7) three_jobs)))
   \<and> bProcessIds (snd (snd (updateBackgroundProcess (\<lambda>i. 7) three_jobs))) 1 = 101
   \<and> bProcessIds three_jobs 1 = 101
   \<and> occupancy (snd (snd (updateBackgroundProcess (\<lambda>i. 7) three_jobs))) = 2
   \<and> occupancy three_jobs = 3
   \<and> fst (updateBackgroundProcess (\<lambda>i. 7) three_jobs) = 2"
  using updateBackgroundProcess_only_clears
          [of "\<lambda>i. 7" three_jobs
              "fst (updateBackgroundProcess (\<lambda>i. 7) three_jobs)"
              "fst (snd (updateBackgroundProcess (\<lambda>i. 7) three_jobs))"
              "snd (snd (updateBackgroundProcess (\<lambda>i. 7) three_jobs))"]
  by (simp add: reap_eval three_jobs_def occupancy_def upt_rec)

section \<open>Lemmas about adding and listing\<close>

lemma update_result:
  "update_loop g 0 0 [] s
     = (fst (updateBackgroundProcess g s), fst (snd (updateBackgroundProcess g s)),
        snd (snd (updateBackgroundProcess g s)))"
  by (simp add: updateBackgroundProcess_def)

lemma update_keeps:
  "bProcessNames (snd (snd (updateBackgroundProcess g s))) = bProcessNames s"
  "mem (snd (snd (updateBackgroundProcess g s))) = mem s"
  "cwd (snd (snd (updateBackgroundProcess g s))) = cwd s"
  "stdout (snd (snd (updateBackgroundProcess g s))) = stdout s"
  "stderr (snd (snd (updateBackgroundProcess g s))) = stderr s"
  using update_loop_frame[OF update_result] by simp_all

lemma update_ids_cases:
  "bProcessIds (snd (snd (updateBackgroundProcess g s))) j = bProcessIds s j
   \<or> bProcessIds (snd (snd (updateBackgroundProcess g s))) j = 0"
  using update_loop_ids[OF update_result, where j = j] by simp

lemma update_ids_outside:
  "BACKGROUND_PROCESS \<le> j \<Longrightarrow>
     bProcessIds (snd (snd (updateBackgroundProcess g s))) j = bProcessIds s j"
  using update_loop_ids[OF update_result, where j = j] by simp

lemma add_loop_unfold:
  "i < BACKGROUND_PROCESS \<Longrightarrow>
   add_loop i p n s =
     (if bProcessIds s i = 0
      then s\<lparr>bProcessIds := (bProcessIds s)(i := p),
             bProcessNames := (bProcessNames s)(i := n),
             stdout := stdout s @ [JobAdded (int i) p]\<rparr>
      else add_loop (Suc i) p n s)"
  by (subst add_loop.simps) simp

lemma add_loop_done: "\<not> i < BACKGROUND_PROCESS \<Longrightarrow> add_loop i p n s = s"
  by (subst add_loop.simps) simp

lemma add_loop_full:
  "(\<And>j. i \<le> j \<Longrightarrow> j < BACKGROUND_PROCESS \<Longrightarrow> bProcessIds s j \<noteq> 0) \<Longrightarrow> add_loop i p n s = s"
proof (induction "BACKGROUND_PROCESS - i" arbitrary: i)
  case 0
  then show ?case by (simp add: add_loop_done)
next
  case (Suc k)
  then have lt: "i < BACKGROUND_PROCESS" and k: "k = BACKGROUND_PROCESS - Suc i" by auto
  have "add_loop (Suc i) p n s = s"
    using Suc.hyps(1)[OF k] Suc.prems by simp
  moreover have "bProcessIds s i \<noteq> 0" using Suc.prems lt by simp
  ultimately show ?case by (simp add: add_loop_unfold[OF lt])
qed

lemma add_loop_outside:
  "BACKGROUND_PROCESS \<le> j \<Longrightarrow> bProcessIds (add_loop i p n s) j = bProcessIds s j"
proof (induction "BACKGROUND_PROCESS - i" arbitrary: i)
  case 0
  then show ?case by (simp add: add_loop_done)
next
  case (Suc k)
  then have lt: "i < BACKGROUND_PROCESS" and k: "k = BACKGROUND_PROCESS - Suc i" by auto
  from Suc.hyps(1)[OF k] Suc.prems lt show ?case
    by (simp add: add_loop_unfold[OF lt])
qed

lemma list_loop_unfold:
  "i < BACKGROUND_PROCESS \<Longrightarrow>
   list_loop i s =
     (if bProcessIds s i \<noteq> 0
      then list_loop (Suc i)
             (s\<lparr>stdout := stdout s @
                  [print_job i (bProcessIds s i) (bProcessNames s i) (mem s)]\<rparr>)
      else list_loop (Suc i) s)"
  by (subst list_loop.simps) simp

lemma list_loop_done: "\<not> i < BACKGROUND_PROCESS \<Longrightarrow> list_loop i s = s"
  by (subst list_loop.simps) simp

lemma list_loop_result:
  "list_loop i s =
     s\<lparr>stdout := stdout s @
          map (job_line s) (filter (\<lambda>j. bProcessIds s j \<noteq> 0) [i..<BACKGROUND_PROCESS])\<rparr>"
proof (induction "BACKGROUND_PROCESS - i" arbitrary: i s)
  case 0
  then show ?case by (simp add: list_loop_done)
next
  case (Suc k)
  then have lt: "i < BACKGROUND_PROCESS" and k: "k = BACKGROUND_PROCESS - Suc i" by auto
  have split: "[i..<BACKGROUND_PROCESS] = i # [Suc i..<BACKGROUND_PROCESS]"
    using lt by (simp add: upt_conv_Cons)
  show ?case
    by (simp add: list_loop_unfold[OF lt] Suc.hyps(1)[OF k] split job_line_def)
qed

lemma table_inv_apply: "table_inv s \<Longrightarrow> table_inv (apply_regop x s)"
  by (cases x)
     (simp_all add: table_inv_def addBackgroundProcess_def listBackgroundProcess_def
        add_loop_outside update_ids_outside list_loop_result)

lemma table_inv_run: "table_inv s \<Longrightarrow> table_inv (run_regops ops s)"
  unfolding run_regops_def
  by (induction ops arbitrary: s) (simp_all add: table_inv_apply)

lemma table_inv_init: "table_inv (init m d)"
  by (simp add: table_inv_def init_def)

lemma occupancy_le: "occupancy s \<le> BACKGROUND_PROCESS"
  unfolding occupancy_def by (rule order_trans[OF length_filter_le]) simp

lemma filter_all:
  "length (filter P xs) = length xs \<Longrightarrow> x \<in> set xs \<Longrightarrow> P x"
proof (induction xs)
  case Nil
  then show ?case by simp
next
  case (Cons a xs)
  have le: "length (filter P xs) \<le> length xs" by simp
  show ?case
  proof (cases "P a")
    case True
    with Cons show ?thesis by auto
  next
    case False
    with Cons.prems(1) le show ?thesis by simp
  qed
qed

lemma occupancy_full:
  assumes "occupancy s = BACKGROUND_PROCESS" and "j < BACKGROUND_PROCESS"
  shows "bProcessIds s j \<noteq> 0"
proof -
  have "length (filter (\<lambda>i. bProcessIds s i \<noteq> 0) [0..<BACKGROUND_PROCESS])
          = length [0..<BACKGROUND_PROCESS]"
    using assms(1) by (simp add: occupancy_def)
  from filter_all[OF this, of j] assms(2) show ?thesis by simp
qed

lemma add_full_table:
  assumes full: "occupancy (snd (snd (updateBackgroundProcess g s))) = BACKGROUND_PROCESS"
  shows "bProcessIds (addBackgroundProcess g p n s) = bProcessIds s"
    and "bProcessNames (addBackgroundProcess g p n s) = bProcessNames s"
    and "stdout (addBackgroundProcess g p n s) = stdout s"
    and "stderr (addBackgroundProcess g p n s) = stderr s"
    and "occupancy (addBackgroundProcess g p n s) = occupancy s"
proof -
  let ?s1 = "snd (snd (updateBackgroundProcess g s))"
  have same: "add_loop 0 p n ?s1 = ?s1"
    by (rule add_loop_full) (rule occupancy_full[OF full])
  have ids: "bProcessIds ?s1 = bProcessIds s"
  proof
    fix j
    show "bProcessIds ?s1 j = bProcessIds s j"
    proof (cases "j < BACKGROUND_PROCESS")
      case True
      with occupancy_full[OF full] update_ids_cases[of g s j] show ?thesis by auto
    next
      case False
      then show ?thesis by (simp add: update_ids_outside)
    qed
  qed
  show "bProcessIds (addBackgroundProcess g p n s) = bProcessIds s"
    by (simp add: addBackgroundProcess_def same ids)
  show "bProcessNames (addBackgroundProcess g p n s) = bProcessNames s"
    by (simp add: addBackgroundProcess_def same update_keeps)
  show "stdout (addBackgroundProcess g p n s) = stdout s"
    by (simp add: addBackgroundProcess_def same update_keeps)
  show "stderr (addBackgroundProcess g p n s) = stderr s"
    by (simp add: addBackgroundProcess_def same update_keeps)
  show "occupancy (addBackgroundProcess g p n s) = occupancy s"
    by (simp add: addBackgroundProcess_def same ids occupancy_def)
qed

lemmas table_eval =
  reap_eval addBackgroundProcess_def listBackgroundProcess_def add_loop.simps
  list_loop_result run_regops_def print_job_def

section \<open>The capacity of the job table\<close>

text \<open>
  What holds of the capacity: after any sequence of registry operations from the
  initial state, with any behaviour of the environment in between, every stored job
  sits in one of the ten slots; and an add that finds all ten slots occupied after
  its own reap pass stores nothing and prints nothing.
\<close>

lemma table_capacity:
  "BACKGROUND_PROCESS = 10
   \<and> (\<forall>j. bProcessIds (run_regops ops (init m d)) j \<noteq> 0 \<longrightarrow> j < BACKGROUND_PROCESS)
   \<and> occupancy (run_regops ops (init m d)) \<le> BACKGROUND_PROCESS
   \<and> (occupancy (snd (snd (updateBackgroundProcess g s))) = BACKGROUND_PROCESS \<longrightarrow>
        bProcessIds (addBackgroundProcess g p n s) = bProcessIds s
        \<and> bProcessNames (addBackgroundProcess g p n s) = bProcessNames s
        \<and> stdout (addBackgroundProcess g p n s) = stdout s
        \<and> stderr (addBackgroundProcess g p n s) = stderr s
        \<and> occupancy (addBackgroundProcess g p n s) = occupancy s)"
proof -
  have "\<forall>j. bProcessIds (run_regops ops (init m d)) j \<noteq> 0 \<longrightarrow> j < BACKGROUND_PROCESS"
    using table_inv_run[OF table_inv_init, of ops m d]
    by (auto simp add: table_inv_def not_less[symmetric])
  then show ?thesis
    using occupancy_le add_full_table by (simp add: BACKGROUND_PROCESS_def)
qed

text \<open>
  Claim C1 says that an add made while all ten slots are occupied leaves the occupancy
  of the table unchanged. The add begins with a reap pass, and the pass clears every
  slot whose status reads zero. With ten jobs in the table, all ten processes running
  and the uninitialised variable holding 0, the pass empties the table and the new job
  is stored in slot 0 and announced: one job is left where there were ten, and no
  process has terminated.
\<close>

theorem full_table_add_clears_running_jobs:
  "occupancy ten_jobs = 10
   \<and> all_running ten_jobs
   \<and> occupancy (addBackgroundProcess (\<lambda>i. 0) 110 5 ten_jobs) = 1
   \<and> bProcessIds (addBackgroundProcess (\<lambda>i. 0) 110 5 ten_jobs) 0 = 110
   \<and> stdout (addBackgroundProcess (\<lambda>i. 0) 110 5 ten_jobs) = [JobAdded 0 110]
   \<and> children (addBackgroundProcess (\<lambda>i. 0) 110 5 ten_jobs) = children ten_jobs"
  by (simp add: ten_jobs_def all_running_def table_eval occupancy_def upt_rec)

section \<open>Jobs whose process has exited\<close>

text \<open>
  Claim C3 says that the next registry operation after the exit of a job's process
  frees the slot, whatever the exit status. The code frees the slot only when the
  status it reads is zero. For a job whose process left with \<^verbatim>\<open>exit(EXIT_FAILURE)\<close>
  (as the intermediate process does when its own \<^verbatim>\<open>fork\<close> fails), whatever the
  uninitialised variable held: the reap pass collects the process, counts the job as
  running and keeps the slot; list still prints the job; add leaves the slot taken.
\<close>

theorem exited_job_keeps_its_slot:
  "fst (updateBackgroundProcess g failed_job) = 1
   \<and> bProcessIds (snd (snd (updateBackgroundProcess g failed_job))) 0 = 100
   \<and> children (snd (snd (updateBackgroundProcess g failed_job))) = []
   \<and> stdout (listBackgroundProcess g failed_job) = [JobLine 0 100 ''sleep'']
   \<and> bProcessIds (addBackgroundProcess g 101 1 failed_job) 0 = 100"
  by (simp add: failed_job_def table_eval job_line_def upt_rec)

section \<open>Launches without exits\<close>

text \<open>
  Claim C5 says that after up to ten background launches with no process exit in
  between, list shows that many entries. When no process has exited, every status
  check returns without writing \<^verbatim>\<open>status\<close>, and the code compares the
  uninitialised variable with zero. One launch, the process still running, then
  \<^verbatim>\<open>btasks\<close> with the variable holding 0: the slot is cleared and nothing is
  listed.
\<close>

theorem running_job_dropped_from_list:
  "main_turn (quiet_env 0 100) [1, 2] fresh = Returns launched
   \<and> bProcessIds launched 0 = 100
   \<and> stdout launched = [JobAdded 0 100]
   \<and> children launched = [(100, Running)]
   \<and> map_option stdout (returned (main_turn (quiet_env 0 0) [3] launched)) = Some [JobAdded 0 100]
   \<and> map_option children (returned (main_turn (quiet_env 0 0) [3] launched)) = Some [(100, Running)]
   \<and> map_option occupancy (returned (main_turn (quiet_env 0 0) [3] launched)) = Some 0"
  by (simp add: runCommand_def quiet_env_def fresh_def returned_def arg0_def main_turn_def
        launched_def table_eval job_line_def occupancy_def upt_rec)

section \<open>The exit command\<close>

lemma update_count:
  "fst (updateBackgroundProcess g s) = int (occupancy (snd (snd (updateBackgroundProcess g s))))"
  using update_loop_count[OF update_result, of g s] by (simp add: occupancy_def)

text \<open>
  What holds of \<^verbatim>\<open>exit\<close>: the shell lists the jobs and makes a reap pass; it
  returns 0 from \<^verbatim>\<open>main\<close> exactly when that pass returns the count zero, which is
  when no job is left in the table after it, and otherwise prints the count and goes on
  with the next turn of the loop.
\<close>

lemma exit_follows_reap_count:
  assumes "mem s c0 = ''exit''"
  shows "main_turn e (c0 # rest) s =
           (if occupancy (exit_table e s) = 0 then Exits 0 (exit_table e s)
            else Returns ((exit_table e s)
                   \<lparr>stdout := stdout (exit_table e s)
                                @ [StillRunning (int (occupancy (exit_table e s)))]\<rparr>))
         \<and> fst (updateBackgroundProcess (status_garbage e 1)
                  (listBackgroundProcess (status_garbage e 0) s))
             = int (occupancy (exit_table e s))
         \<and> (main_turn e (c0 # rest) s = Exits 0 (exit_table e s))
             = (occupancy (exit_table e s) = 0)"
  using assms
  by (simp add: main_turn_def exit_command_def exit_table_def Let_def update_count)

text \<open>
  Claim C4 says that \<^verbatim>\<open>exit\<close> never ends the shell while a background job is
  live. The two reap passes of \<^verbatim>\<open>exit\<close> clear every slot whose status reads zero.
  After \<^verbatim>\<open>sleep &\<close>, with process 100 still running and the uninitialised
  variable holding 0, the passes clear the slot, nothing is listed, the count is zero
  and \<^verbatim>\<open>main\<close> returns 0 while process 100 runs on.
\<close>

theorem exit_with_running_job:
  "bProcessIds launched 0 = 100
   \<and> children launched = [(100, Running)]
   \<and> main_turn (quiet_env 0 0) [4] launched = Exits 0 (exit_table (quiet_env 0 0) launched)
   \<and> children (exit_table (quiet_env 0 0) launched) = [(100, Running)]
   \<and> stdout (exit_table (quiet_env 0 0) launched) = [JobAdded 0 100]"
  by (simp add: main_turn_def exit_command_def exit_table_def quiet_env_def launched_def fresh_def
        table_eval occupancy_def upt_rec)

section \<open>The names of the jobs\<close>

lemma add_loop_first_free:
  "i0 \<le> i \<Longrightarrow> i < BACKGROUND_PROCESS \<Longrightarrow> bProcessIds s i = 0 \<Longrightarrow>
   (\<And>j. i0 \<le> j \<Longrightarrow> j < i \<Longrightarrow> bProcessIds s j \<noteq> 0) \<Longrightarrow>
   add_loop i0 p n s =
     s\<lparr>bProcessIds := (bProcessIds s)(i := p),
       bProcessNames := (bProcessNames s)(i := n),
       stdout := stdout s @ [JobAdded (int i) p]\<rparr>"
proof (induction "i - i0" arbitrary: i0)
  case 0
  then have e: "i0 = i" by simp
  have "add_loop i p n s =
     s\<lparr>bProcessIds := (bProcessIds s)(i := p),
       bProcessNames := (bProcessNames s)(i := n),
       stdout := stdout s @ [JobAdded (int i) p]\<rparr>"
    by (simp only: add_loop_unfold[OF "0.prems"(2)] "0.prems"(3) refl if_True)
  then show ?case by (simp only: e)
next
  case (Suc k)
  then have lt: "i0 < i" and k: "k = i - Suc i0" by auto
  have nz: "bProcessIds s i0 \<noteq> 0" using Suc.prems(4)[of i0] lt by simp
  have i0lt: "i0 < BACKGROUND_PROCESS" using lt Suc.prems(2) by simp
  have "add_loop (Suc i0) p n s =
     s\<lparr>bProcessIds := (bProcessIds s)(i := p),
       bProcessNames := (bProcessNames s)(i := n),
       stdout := stdout s @ [JobAdded (int i) p]\<rparr>"
    using Suc.hyps(1)[OF k] lt Suc.prems by simp
  with nz show ?case by (simp add: add_loop_unfold[OF i0lt])
qed

lemma list_output:
  "stdout (listBackgroundProcess g s) =
     stdout s @
       map (\<lambda>j. print_job j (bProcessIds s j) (bProcessNames s j) (mem s))
         (filter (\<lambda>j. bProcessIds (snd (snd (updateBackgroundProcess g s))) j \<noteq> 0)
            [0..<BACKGROUND_PROCESS])"
proof -
  let ?s1 = "snd (snd (updateBackgroundProcess g s))"
  have "map (job_line ?s1) (filter (\<lambda>j. bProcessIds ?s1 j \<noteq> 0) [0..<BACKGROUND_PROCESS])
      = map (\<lambda>j. print_job j (bProcessIds s j) (bProcessNames s j) (mem s))
          (filter (\<lambda>j. bProcessIds ?s1 j \<noteq> 0) [0..<BACKGROUND_PROCESS])"
  proof (rule map_cong[OF refl])
    fix j assume "j \<in> set (filter (\<lambda>j. bProcessIds ?s1 j \<noteq> 0) [0..<BACKGROUND_PROCESS])"
    then have "bProcessIds ?s1 j \<noteq> 0" by simp
    with update_ids_cases[of g s j] have "bProcessIds ?s1 j = bProcessIds s j" by auto
    then show "job_line ?s1 j = print_job j (bProcessIds s j) (bProcessNames s j) (mem s)"
      by (simp add: job_line_def update_keeps)
  qed
  then show ?thesis
    by (simp add: listBackgroundProcess_def list_loop_result update_keeps)
qed

text \<open>
  Claim C8 says that the table keeps its own copy of the program name. The code
  stores the pointer it is given, the address of the token in the line buffer. A
  job registered while that storage holds \<^verbatim>\<open>sleep\<close> is listed as \<^verbatim>\<open>sleep\<close>,
  and as \<^verbatim>\<open>ls\<close> once the same storage has been overwritten with \<^verbatim>\<open>ls\<close>.
\<close>

theorem name_is_shared_with_the_argument_counterexample:
  "bProcessIds launched 0 = 100
   \<and> mem launched (bProcessNames launched 0) = ''sleep''
   \<and> stdout (listBackgroundProcess (\<lambda>i. 1) launched)
       = [JobAdded 0 100, JobLine 0 100 ''sleep'']
   \<and> stdout (listBackgroundProcess (\<lambda>i. 1) (launched\<lparr>mem := (mem launched)(1 := ''ls'')\<rparr>))
       = [JobAdded 0 100, JobLine 0 100 ''ls'']"
  by (simp add: launched_def fresh_def table_eval job_line_def upt_rec)

lemma add_loop_cases:
  "add_loop i0 p n s = s
   \<or> (\<exists>i. i0 \<le> i \<and> i < BACKGROUND_PROCESS \<and> bProcessIds s i = 0 \<and>
          add_loop i0 p n s =
            s\<lparr>bProcessIds := (bProcessIds s)(i := p),
              bProcessNames := (bProcessNames s)(i := n),
              stdout := stdout s @ [JobAdded (int i) p]\<rparr>)"
proof (induction "BACKGROUND_PROCESS - i0" arbitrary: i0)
  case 0
  then show ?case by (simp add: add_loop_done)
next
  case (Suc k)
  then have lt: "i0 < BACKGROUND_PROCESS" and k: "k = BACKGROUND_PROCESS - Suc i0" by auto
  show ?case
  proof (cases "bProcessIds s i0 = 0")
    case True
    then have "add_loop i0 p n s =
            s\<lparr>bProcessIds := (bProcessIds s)(i0 := p),
              bProcessNames := (bProcessNames s)(i0 := n),
              stdout := stdout s @ [JobAdded (int i0) p]\<rparr>"
      by (simp only: add_loop_unfold[OF lt] refl if_True)
    with True lt show ?thesis by blast
  next
    case False
    then have e: "add_loop i0 p n s = add_loop (Suc i0) p n s"
      by (simp only: add_loop_unfold[OF lt] if_False)
    from Suc.hyps(1)[OF k] show ?thesis
      unfolding e using Suc_leD by blast
  qed
qed

lemma add_pairs:
  assumes "bProcessIds (addBackgroundProcess g p n s) j \<noteq> 0"
  shows "(bProcessIds (addBackgroundProcess g p n s) j, bProcessNames (addBackgroundProcess g p n s) j)
           = (bProcessIds s j, bProcessNames s j)
         \<or> (bProcessIds (addBackgroundProcess g p n s) j, bProcessNames (addBackgroundProcess g p n s) j)
           = (p, n)"
proof -
  let ?s1 = "snd (snd (updateBackgroundProcess g s))"
  have s1: "bProcessIds ?s1 j \<noteq> 0 \<Longrightarrow> bProcessIds ?s1 j = bProcessIds s j"
    using update_ids_cases[of g s j] by auto
  from add_loop_cases[of 0 p n ?s1] show ?thesis
  proof
    assume "add_loop 0 p n ?s1 = ?s1"
    then show ?thesis
      using assms s1 by (simp add: addBackgroundProcess_def update_keeps)
  next
    assume "\<exists>i. 0 \<le> i \<and> i < BACKGROUND_PROCESS \<and> bProcessIds ?s1 i = 0 \<and>
          add_loop 0 p n ?s1 =
            ?s1\<lparr>bProcessIds := (bProcessIds ?s1)(i := p),
              bProcessNames := (bProcessNames ?s1)(i := n),
              stdout := stdout ?s1 @ [JobAdded (int i) p]\<rparr>"
    then obtain i where "add_loop 0 p n ?s1 =
            ?s1\<lparr>bProcessIds := (bProcessIds ?s1)(i := p),
              bProcessNames := (bProcessNames ?s1)(i := n),
              stdout := stdout ?s1 @ [JobAdded (int i) p]\<rparr>"
      by blast
    then show ?thesis
      using assms s1 by (cases "j = i") (simp_all add: addBackgroundProcess_def update_keeps)
  qed
qed

lemma list_keeps:
  "bProcessIds (listBackgroundProcess g s) = bProcessIds (snd (snd (updateBackgroundProcess g s)))"
  "bProcessNames (listBackgroundProcess g s) = bProcessNames s"
  "mem (listBackgroundProcess g s) = mem s"
  by (simp_all add: listBackgroundProcess_def list_loop_result update_keeps)

lemma regop_pairs:
  assumes "bProcessIds (apply_regop x s) j \<noteq> 0"
  shows "(bProcessIds (apply_regop x s) j, bProcessNames (apply_regop x s) j)
           = (bProcessIds s j, bProcessNames s j)
         \<or> (bProcessIds (apply_regop x s) j, bProcessNames (apply_regop x s) j) \<in> set (added [x])"
proof (cases x)
  case (Add g p n)
  with add_pairs[of g p n s j] assms show ?thesis by auto
next
  case (List g)
  with assms update_ids_cases[of g s j] show ?thesis by (auto simp add: list_keeps)
next
  case (ReapAll g)
  with assms update_ids_cases[of g s j] show ?thesis by (auto simp add: update_keeps)
next
  case (Environment ps m)
  then show ?thesis by simp
qed

lemma added_Cons: "set (added (x # ops)) = set (added [x]) \<union> set (added ops)"
  by (cases x) simp_all

lemma run_regops_pairs:
  "bProcessIds (run_regops ops s) j \<noteq> 0 \<Longrightarrow>
     (bProcessIds (run_regops ops s) j, bProcessNames (run_regops ops s) j)
        = (bProcessIds s j, bProcessNames s j)
     \<or> (bProcessIds (run_regops ops s) j, bProcessNames (run_regops ops s) j) \<in> set (added ops)"
proof (induction ops arbitrary: s)
  case Nil
  then show ?case by (simp add: run_regops_def)
next
  case (Cons x ops)
  let ?s1 = "apply_regop x s"
  have r: "run_regops (x # ops) s = run_regops ops ?s1" by (simp add: run_regops_def)
  from Cons.prems have nz: "bProcessIds (run_regops ops ?s1) j \<noteq> 0" by (simp add: r)
  from Cons.IH[OF nz] show ?case
  proof
    assume "(bProcessIds (run_regops ops ?s1) j, bProcessNames (run_regops ops ?s1) j) \<in> set (added ops)"
    then show ?thesis unfolding r added_Cons[of x ops] by blast
  next
    assume e: "(bProcessIds (run_regops ops ?s1) j, bProcessNames (run_regops ops ?s1) j)
                 = (bProcessIds ?s1 j, bProcessNames ?s1 j)"
    with nz have "bProcessIds ?s1 j \<noteq> 0" by simp
    from regop_pairs[OF this] e show ?thesis unfolding r added_Cons[of x ops] by auto
  qed
qed

text \<open>
  Claim C8 as amended. The table stores the address of the program name and no copy.
  An add that finds slot \<open>i\<close> as the first free one after its reap pass puts the pid
  and the address it was given into that slot and changes the name of no other slot;
  an add that finds no free slot changes no name; no add changes memory. Reap passes and list change neither the stored addresses
  nor memory. After any sequence of registry operations and steps of the environment,
  every occupied slot holds a pid together with the address that was in the slot at
  the beginning or that was passed with that pid to one of the adds. List prints, for
  every slot still occupied after its reap pass, the slot, the pid and the string that
  memory holds at the stored address when list runs (the call is undefined when the
  address is null). So a job is listed under the name it was registered with as long
  as the storage of that token has not been modified.
\<close>

theorem list_reads_name_through_pointer:
  "stdout (listBackgroundProcess g s) =
     stdout s @
       map (\<lambda>j. print_job j (bProcessIds s j) (bProcessNames s j) (mem s))
         (filter (\<lambda>j. bProcessIds (snd (snd (updateBackgroundProcess g s))) j \<noteq> 0)
            [0..<BACKGROUND_PROCESS])
   \<and> (i < BACKGROUND_PROCESS
        \<and> bProcessIds (snd (snd (updateBackgroundProcess g s))) i = 0
        \<and> (\<forall>j<i. bProcessIds (snd (snd (updateBackgroundProcess g s))) j \<noteq> 0)
      \<longrightarrow> bProcessIds (addBackgroundProcess g p n s) i = p
          \<and> bProcessNames (addBackgroundProcess g p n s) = (bProcessNames s)(i := n))
   \<and> (occupancy (snd (snd (updateBackgroundProcess g s))) = BACKGROUND_PROCESS
      \<longrightarrow> bProcessNames (addBackgroundProcess g p n s) = bProcessNames s)
   \<and> mem (addBackgroundProcess g p n s) = mem s
   \<and> bProcessNames (listBackgroundProcess g s) = bProcessNames s
   \<and> mem (listBackgroundProcess g s) = mem s
   \<and> bProcessNames (snd (snd (updateBackgroundProcess g s))) = bProcessNames s
   \<and> mem (snd (snd (updateBackgroundProcess g s))) = mem s
   \<and> (\<forall>j. bProcessIds (run_regops ops s) j \<noteq> 0 \<longrightarrow>
          (bProcessIds (run_regops ops s) j, bProcessNames (run_regops ops s) j)
             = (bProcessIds s j, bProcessNames s j)
          \<or> (bProcessIds (run_regops ops s) j, bProcessNames (run_regops ops s) j)
             \<in> set (added ops))"
proof -
  let ?s1 = "snd (snd (updateBackgroundProcess g s))"
  have B: "bProcessIds (addBackgroundProcess g p n s) i = p
          \<and> bProcessNames (addBackgroundProcess g p n s) = (bProcessNames s)(i := n)"
    if "i < BACKGROUND_PROCESS" "bProcessIds ?s1 i = 0" "\<forall>j<i. bProcessIds ?s1 j \<noteq> 0"
    using add_loop_first_free[of 0 i ?s1 p n] that
    by (simp add: addBackgroundProcess_def update_keeps)
  have M: "mem (addBackgroundProcess g p n s) = mem s"
    using add_loop_cases[of 0 p n ?s1]
    by (auto simp add: addBackgroundProcess_def update_keeps)
  have F: "occupancy ?s1 = BACKGROUND_PROCESS
      \<longrightarrow> bProcessNames (addBackgroundProcess g p n s) = bProcessNames s"
    using add_full_table(2)[of g s p n] by blast
  show ?thesis
    using list_output[of g s] B F M list_keeps(2,3)[of g s] update_keeps(1,2)[of g s]
      run_regops_pairs[of ops s]
    by blast
qed

theorem list_reads_name_through_pointer_witness:
  "(1::nat) < BACKGROUND_PROCESS
   \<and> bProcessIds (snd (snd (updateBackgroundProcess (\<lambda>i. 1) launched))) 1 = 0
   \<and> bProcessIds (snd (snd (updateBackgroundProcess (\<lambda>i. 1) launched))) 0 \<noteq> 0
   \<and> bProcessIds (addBackgroundProcess (\<lambda>i. 1) 101 6 launched) 1 = 101
   \<and> bProcessNames (addBackgroundProcess (\<lambda>i. 1) 101 6 launched) = (bProcessNames launched)(1 := 6)
   \<and> occupancy (snd (snd (updateBackgroundProcess (\<lambda>i. 1) ten_jobs))) = BACKGROUND_PROCESS
   \<and> bProcessNames (addBackgroundProcess (\<lambda>i. 1) 110 5 ten_jobs) = bProcessNames ten_jobs
   \<and> bProcessIds (run_regops [Add (\<lambda>i. 1) 101 6, List (\<lambda>i. 1)] launched) 1 \<noteq> 0
   \<and> (bProcessIds (run_regops [Add (\<lambda>i. 1) 101 6, List (\<lambda>i. 1)] launched) 1,
       bProcessNames (run_regops [Add (\<lambda>i. 1) 101 6, List (\<lambda>i. 1)] launched) 1)
        \<in> set (added [Add (\<lambda>i. 1) 101 6, List (\<lambda>i. 1)])
   \<and> stdout (run_regops [Add (\<lambda>i. 1) 101 6, List (\<lambda>i. 1)] launched)
       = [JobAdded 0 100, JobAdded 1 101, JobLine 0 100 ''sleep'', JobLine 1 101 ''/nowhere'']"
proof -
  have a: "(1::nat) < BACKGROUND_PROCESS" by (simp add: BACKGROUND_PROCESS_def)
  have b: "bProcessIds (snd (snd (updateBackgroundProcess (\<lambda>i. 1) launched))) 1 = 0"
    by (simp add: launched_def fresh_def table_eval)
  have c: "\<forall>j<1::nat. bProcessIds (snd (snd (updateBackgroundProcess (\<lambda>i. 1) launched))) j \<noteq> 0"
    by (simp add: launched_def fresh_def table_eval)
  have c0: "bProcessIds (snd (snd (updateBackgroundProcess (\<lambda>i. 1) launched))) 0 \<noteq> 0"
    using c by simp
  have d: "stdout (run_regops [Add (\<lambda>i. 1) 101 6, List (\<lambda>i. 1)] launched)
       = [JobAdded 0 100, JobAdded 1 101, JobLine 0 100 ''sleep'', JobLine 1 101 ''/nowhere'']"
    by (simp add: launched_def fresh_def table_eval job_line_def upt_rec)
  have e: "bProcessIds (run_regops [Add (\<lambda>i. 1) 101 6, List (\<lambda>i. 1)] launched) 1 \<noteq> 0"
    by (simp add: launched_def fresh_def table_eval job_line_def)
  have f: "(bProcessIds (run_regops [Add (\<lambda>i. 1) 101 6, List (\<lambda>i. 1)] launched) 1,
       bProcessNames (run_regops [Add (\<lambda>i. 1) 101 6, List (\<lambda>i. 1)] launched) 1)
        \<noteq> (bProcessIds launched 1, bProcessNames launched 1)"
    by (simp add: launched_def fresh_def table_eval job_line_def)
  have h: "occupancy (snd (snd (updateBackgroundProcess (\<lambda>i. 1) ten_jobs))) = BACKGROUND_PROCESS"
    by (simp add: ten_jobs_def reap_eval occupancy_def upt_rec)
  from h list_reads_name_through_pointer[of "\<lambda>i. 1" ten_jobs _ 110 5]
  have k: "bProcessNames (addBackgroundProcess (\<lambda>i. 1) 110 5 ten_jobs) = bProcessNames ten_jobs"
    by blast
  from a b c c0 d e f h k
    list_reads_name_through_pointer
      [of "\<lambda>i. 1" launched 1 101 6 "[Add (\<lambda>i. 1) 101 6, List (\<lambda>i. 1)]"]
  show ?thesis by blast
qed

section \<open>Failures of cd\<close>

text \<open>
  Claim C9. When \<^verbatim>\<open>chdir\<close> fails (it then sets \<^verbatim>\<open>errno\<close> to a non-zero
  error number), \<^verbatim>\<open>runBuiltinCd\<close> writes exactly one diagnostic, which carries the
  path and one of four different messages: the one for a missing path component when
  the error is \<^verbatim>\<open>ENOENT\<close>, the one for denied permission when it is \<^verbatim>\<open>EACCES\<close>,
  the one for a component that is not a directory when it is \<^verbatim>\<open>ENOTDIR\<close>, and
  the unhandled one for every other error. The working directory and the rest of the
  state are unchanged, and the command loop goes on with its next turn.
\<close>

theorem cd_failure_diagnostic:
  assumes "p_path \<noteq> 0" and "chdir_ret e = ChdirFailed err" and "err \<noteq> 0"
  shows "runBuiltinCd e p_path s
           = s\<lparr>stderr := stderr s @ [CdError (mem s p_path) (cd_message err)]\<rparr>
         \<and> cwd (runBuiltinCd e p_path s) = cwd s
         \<and> cd_message err =
             (if err = ENOENT then ''A component of the path does not name an existing directory''
              else if err = EACCES
                then ''Search permission are denied for any component of the pathname.''
              else if err = ENOTDIR then ''A component of the path is not a directory.''
              else ''Unhandled error.'')
         \<and> distinct [''A component of the path does not name an existing directory'',
                      ''Search permission are denied for any component of the pathname.'',
                      ''A component of the path is not a directory.'',
                      ''Unhandled error.'']
         \<and> distinct [ENOENT, EACCES, ENOTDIR, 0]
         \<and> (mem s c0 = ''cd'' \<longrightarrow>
              main_turn e (c0 # p_path # rest) s
                = Returns (s\<lparr>stderr := stderr s @ [CdError (mem s p_path) (cd_message err)]\<rparr>))"
proof -
  have r: "runBuiltinCd e p_path s
           = s\<lparr>stderr := stderr s @ [CdError (mem s p_path) (cd_message err)]\<rparr>"
    using assms by (simp add: runBuiltinCd_def)
  have m: "mem s c0 = ''cd'' \<Longrightarrow>
              main_turn e (c0 # p_path # rest) s = Returns (runBuiltinCd e p_path s)"
    by (simp add: main_turn_def)
  have d: "distinct [ENOENT, EACCES, ENOTDIR, 0]"
    by (simp add: ENOENT_def EACCES_def ENOTDIR_def)
  show ?thesis
    using r m d by (simp add: cd_message_def)
qed

theorem cd_failure_diagnostic_witness:
  "(6::nat) \<noteq> 0 \<and> chdir_ret (quiet_env 1 0) = ChdirFailed ENOENT \<and> ENOENT \<noteq> 0
   \<and> mem fresh 5 = ''cd''
   \<and> main_turn (quiet_env 1 0) [5, 6] fresh
       = Returns (fresh\<lparr>stderr :=
            [CdError ''/nowhere'' ''A component of the path does not name an existing directory'']\<rparr>)
   \<and> cwd (runBuiltinCd (quiet_env 1 0) 6 fresh) = ''/home''"
proof -
  have a: "chdir_ret (quiet_env 1 0) = ChdirFailed ENOENT" by (simp add: quiet_env_def)
  have b: "ENOENT \<noteq> 0" by (simp add: ENOENT_def)
  have c: "mem fresh 5 = ''cd''" "mem fresh 6 = ''/nowhere''" "stderr fresh = []" "cwd fresh = ''/home''"
    by (simp_all add: fresh_def init_def)
  from a b c cd_failure_diagnostic[of 6 "quiet_env 1 0" ENOENT fresh 5 "[]"]
  show ?thesis by simp
qed

section \<open>Foreground commands\<close>

text \<open>
  Claim C6 says that a foreground run blocks until the intermediate process forked
  for the command has terminated, each wait of the shell collecting exactly that
  child. The shell calls \<^verbatim>\<open>wait(NULL)\<close>, which takes any terminated child. With a
  background job (pid 100) that has terminated and has not been polled yet, the wait
  of a foreground run whose intermediate process is 101 collects 100 at once:
  \<^verbatim>\<open>runCommand\<close> returns while 101 is still running, and 100 stays in the table.
\<close>

theorem foreground_wait_returns_for_other_child:
  "wait_any ev (children finished_job @ [(101, Running)]) = Some (100, [(101, Running)])
   \<and> map_option children (returned (runCommand (e\<lparr>fork_ret := 101\<rparr>) [2] False finished_job))
       = Some [(101, Running)]
   \<and> map_option (\<lambda>s. bProcessIds s 0) (returned (runCommand (e\<lparr>fork_ret := 101\<rparr>) [2] False finished_job))
       = Some 100"
  by (simp add: runCommand_def wait_any_def reap_def finished_job_def init_def returned_def)

section \<open>Failure of exec\<close>

text \<open>
  Claim C7 says that the diagnostic of a failed exec carries the error code of the
  operating system. The grandchild prints the value returned by \<^verbatim>\<open>execvp\<close>,
  which is -1 for every failure, and never reads \<^verbatim>\<open>errno\<close>: for \<^verbatim>\<open>ENOENT\<close>
  (2) and for \<^verbatim>\<open>EACCES\<close> (13) alike it prints -1 and calls \<^verbatim>\<open>exit(-1)\<close>,
  exit status 255. The rest of the claim holds: the status is not zero, and the
  intermediate process, once its wait has collected the grandchild, prints the
  statistics and exits with 0.
\<close>

theorem exec_failure_reports_minus_one:
  "runCommand (e\<lparr>fork_ret := 0, inner_fork_ret := 0, exec_ret := ExecFailed ENOENT\<rparr>) p_cmd bg s
     = Exits (- 1) (s\<lparr>children := [], stderr := stderr s @ [ExecError (- 1)]\<rparr>)
   \<and> runCommand (e\<lparr>fork_ret := 0, inner_fork_ret := 0, exec_ret := ExecFailed EACCES\<rparr>) p_cmd bg s
     = Exits (- 1) (s\<lparr>children := [], stderr := stderr s @ [ExecError (- 1)]\<rparr>)
   \<and> ENOENT = 2 \<and> EACCES = 13
   \<and> exit_status (- 1) = 255
   \<and> runCommand (e\<lparr>fork_ret := 0, inner_fork_ret := 200, wait_event := Some (200, 255 * 256)\<rparr>)
        p_cmd bg s
     = Exits 0 (s\<lparr>children := [],
                  stdout := stdout s @
                    [printChildrenStatistics (usage e) (startTime e) (endTime e)]\<rparr>)"
  by (simp add: runCommand_def wait_any_def reap_def exit_status_def ENOENT_def EACCES_def Let_def)

section \<open>Launches when no status is read as zero\<close>

text \<open>
  What does hold for launches without exits: when no child has terminated, the status
  checks write nothing, and if in addition the uninitialised variable never holds
  zero, a reap pass changes nothing. Then up to ten launches fill the slots in order
  and list prints one line for each.
\<close>

lemma update_body_idle:
  assumes "g i \<noteq> 0" and "all_running s"
  shows "update_body g i s = s"
proof -
  have "map_of (children s) p \<noteq> Some (Zombie st)" for p st
  proof
    assume "map_of (children s) p = Some (Zombie st)"
    then have "(p, Zombie st) \<in> set (children s)" by (rule map_of_SomeD)
    with assms(2) show False by (auto simp add: all_running_def list_all_iff)
  qed
  then have w: "waitpid_nohang (children s) p = (- 1, None, children s)
             \<or> waitpid_nohang (children s) p = (0, None, children s)" for p
    by (auto simp add: waitpid_nohang_def split: option.splits pstate.splits)
  have "status_after g i s = g i" "children_after i s = children s"
    using w[of "bProcessIds s i"] by (auto simp add: status_after_def children_after_def)
  with assms(1) show ?thesis by (simp add: update_body_def)
qed

lemma update_loop_idle:
  assumes "\<And>i. g i \<noteq> 0" and "all_running s"
  shows "snd (snd (update_loop g i c l s)) = s"
proof (induction "BACKGROUND_PROCESS - i" arbitrary: i c l)
  case 0
  then show ?case by (simp add: update_loop_done)
next
  case (Suc k)
  then have lt: "i < BACKGROUND_PROCESS" and k: "k = BACKGROUND_PROCESS - Suc i" by auto
  show ?case
    by (simp add: update_loop_unfold[OF lt] update_body_idle[OF assms(1) assms(2)] Suc.hyps(1)[OF k])
qed

lemma update_idle:
  "(\<And>i. g i \<noteq> 0) \<Longrightarrow> all_running s \<Longrightarrow> snd (snd (updateBackgroundProcess g s)) = s"
  by (simp add: updateBackgroundProcess_def update_loop_idle)

lemma launch_all_fills:
  assumes g: "\<And>i. g i \<noteq> 0"
  shows "all_running s \<Longrightarrow> k + length js \<le> BACKGROUND_PROCESS \<Longrightarrow>
         (\<And>j. j < k \<Longrightarrow> bProcessIds s j \<noteq> 0) \<Longrightarrow>
         (\<And>j. k \<le> j \<Longrightarrow> j < BACKGROUND_PROCESS \<Longrightarrow> bProcessIds s j = 0) \<Longrightarrow>
         list_all (\<lambda>e. fst e \<noteq> 0) js \<Longrightarrow>
         all_running (launch_all g js s)
         \<and> mem (launch_all g js s) = mem s
         \<and> (\<forall>j. bProcessIds (launch_all g js s) j =
                  (if k \<le> j \<and> j < k + length js then fst (js ! (j - k)) else bProcessIds s j))
         \<and> (\<forall>j. bProcessNames (launch_all g js s) j =
                  (if k \<le> j \<and> j < k + length js then snd (js ! (j - k)) else bProcessNames s j))"
proof (induction js arbitrary: s k)
  case Nil
  then show ?case by simp
next
  case (Cons a js)
  obtain p n where a: "a = (p, n)" by (cases a)
  let ?s0 = "s\<lparr>children := children s @ [(p, Running)]\<rparr>"
  let ?s1 = "addBackgroundProcess g p n ?s0"
  have run0: "all_running ?s0" using Cons.prems(1) by (simp add: all_running_def)
  have klt: "k < BACKGROUND_PROCESS" using Cons.prems(2) by simp
  have pnz: "p \<noteq> 0" using Cons.prems(5) a by simp
  have s1: "?s1 = ?s0\<lparr>bProcessIds := (bProcessIds ?s0)(k := p),
                       bProcessNames := (bProcessNames ?s0)(k := n),
                       stdout := stdout ?s0 @ [JobAdded (int k) p]\<rparr>"
    unfolding addBackgroundProcess_def update_idle[OF g run0]
    by (rule add_loop_first_free) (use klt Cons.prems(3,4) in simp_all)
  have run1: "all_running ?s1" using run0 by (simp add: s1 all_running_def)
  have ih: "all_running (launch_all g js ?s1)
         \<and> mem (launch_all g js ?s1) = mem ?s1
         \<and> (\<forall>j. bProcessIds (launch_all g js ?s1) j =
                  (if Suc k \<le> j \<and> j < Suc k + length js then fst (js ! (j - Suc k)) else bProcessIds ?s1 j))
         \<and> (\<forall>j. bProcessNames (launch_all g js ?s1) j =
                  (if Suc k \<le> j \<and> j < Suc k + length js then snd (js ! (j - Suc k)) else bProcessNames ?s1 j))"
  proof (rule Cons.IH[OF run1])
    show "Suc k + length js \<le> BACKGROUND_PROCESS" using Cons.prems(2) by simp
    show "\<And>j. j < Suc k \<Longrightarrow> bProcessIds ?s1 j \<noteq> 0"
      using Cons.prems(3) pnz by (auto simp add: s1 less_Suc_eq)
    show "\<And>j. Suc k \<le> j \<Longrightarrow> j < BACKGROUND_PROCESS \<Longrightarrow> bProcessIds ?s1 j = 0"
      using Cons.prems(4) by (simp add: s1)
    show "list_all (\<lambda>e. fst e \<noteq> 0) js" using Cons.prems(5) by simp
  qed
  have ids1: "bProcessIds ?s1 j = (if j = k then p else bProcessIds s j)" for j
    by (simp add: s1)
  have names1: "bProcessNames ?s1 j = (if j = k then n else bProcessNames s j)" for j
    by (simp add: s1)
  have mem1: "mem ?s1 = mem s" by (simp add: s1)
  have nth: "Suc k \<le> j \<Longrightarrow> (a # js) ! (j - k) = js ! (j - Suc k)" for j
    by (simp add: Suc_diff_le)
  show ?case
    using ih by (auto simp add: a ids1 names1 mem1 nth Suc_diff_le)
qed


lemma launches_then_list:
  assumes g: "\<And>i. g i \<noteq> 0"
    and len: "length js \<le> BACKGROUND_PROCESS"
    and pids: "list_all (\<lambda>e. fst e \<noteq> 0) js"
    and ptrs: "list_all (\<lambda>e. snd e \<noteq> 0) js"
  shows "stdout (listBackgroundProcess g (launch_all g js (init m d)))
           = stdout (launch_all g js (init m d))
             @ map (\<lambda>j. JobLine (int j) (fst (js ! j)) (m (snd (js ! j)))) [0..<length js]"
proof -
  let ?s = "launch_all g js (init m d)"
  have "all_running (init m d)" by (simp add: all_running_def init_def)
  from launch_all_fills[OF g this, of 0 js] len pids
  have run: "all_running ?s"
    and mem: "mem ?s = m"
    and ids: "\<And>j. bProcessIds ?s j = (if j < length js then fst (js ! j) else 0)"
    and names: "\<And>j. j < length js \<Longrightarrow> bProcessNames ?s j = snd (js ! j)"
    by (simp_all add: init_def)
  have nz: "j < length js \<Longrightarrow> fst (js ! j) \<noteq> 0" for j
    using pids by (simp add: list_all_length)
  have pz: "j < length js \<Longrightarrow> snd (js ! j) \<noteq> 0" for j
    using ptrs by (simp add: list_all_length)
  have split: "[0..<BACKGROUND_PROCESS] = [0..<length js] @ [length js..<BACKGROUND_PROCESS]"
    using len by (metis le_add_diff_inverse upt_add_eq_append zero_le)
  have f1: "filter (\<lambda>j. bProcessIds ?s j \<noteq> 0) [0..<length js] = [0..<length js]"
    by (rule filter_True) (simp add: ids nz)
  have f2: "filter (\<lambda>j. bProcessIds ?s j \<noteq> 0) [length js..<BACKGROUND_PROCESS] = []"
    by (rule filter_False) (simp add: ids)
  have occ: "filter (\<lambda>j. bProcessIds ?s j \<noteq> 0) [0..<BACKGROUND_PROCESS] = [0..<length js]"
    by (simp only: split filter_append f1 f2 append_Nil2)
  have lines: "map (\<lambda>j. print_job j (bProcessIds ?s j) (bProcessNames ?s j) (mem ?s)) [0..<length js]
        = map (\<lambda>j. JobLine (int j) (fst (js ! j)) (m (snd (js ! j)))) [0..<length js]"
    by (rule map_cong) (simp_all add: ids names mem pz print_job_def)
  show ?thesis
    by (simp only: list_output update_idle[OF g run] occ lines)
qed

end
